theory Spec2Isabelle
  imports Complex_Main "HOL-Library.Word" "HOL-Library.Multiset" "HOL-Library.Sublist"
begin

section \<open>The enwik8 transformer example: a shallow embedding\<close>

text \<open>
  The development follows \<^verbatim>\<open>examples/transformer/enwik8.py\<close>. Python integers are
  \<^typ>\<open>int\<close>, sizes that the code only ever uses as counts are \<^typ>\<open>nat\<close>, NumPy
  arrays are lists (two-dimensional arrays are lists of rows), \<^verbatim>\<open>uint8\<close> is
  \<^typ>\<open>8 word\<close>, and Python floats are exact reals: rounding, overflow and underflow
  of IEEE arithmetic are outside the model. Every exception the code can raise on the
  modelled paths is a value of \<open>py_error\<close>.
\<close>

datatype py_error =
    RandintError         \<comment> \<open>ValueError of \<^verbatim>\<open>np.random.randint\<close>: low >= high\<close>
  | ZeroDivisionError    \<comment> \<open>integer \<^verbatim>\<open>//\<close> by zero\<close>
  | ReshapeError         \<comment> \<open>ValueError of \<^verbatim>\<open>ndarray.reshape\<close>\<close>
  | NegativeDimError     \<comment> \<open>ValueError of \<^verbatim>\<open>np.ones\<close>/\<^verbatim>\<open>np.zeros\<close>: negative dimensions\<close>
  | IndexError           \<comment> \<open>index out of bounds for an axis\<close>
  | BroadcastError       \<comment> \<open>ValueError of a slice assignment whose shapes do not broadcast\<close>

subsection \<open>NumPy helpers\<close>

text \<open>\<^verbatim>\<open>np.ndindex(n, m)\<close>: all index pairs, in row-major order.\<close>

definition ndindex :: "nat \<Rightarrow> nat \<Rightarrow> (nat \<times> nat) list" where
  "ndindex n m = List.product [0..<n] [0..<m]"

text \<open>\<^verbatim>\<open>np.ones([n, m], dtype=np.bool)\<close>.\<close>

definition ones :: "nat \<Rightarrow> nat \<Rightarrow> bool list list" where
  "ones n m = replicate n (replicate m True)"

text \<open>\<^verbatim>\<open>a[q, k] = v\<close> for an index pair inside the array.\<close>

definition set2 :: "'a list list \<Rightarrow> nat \<Rightarrow> nat \<Rightarrow> 'a \<Rightarrow> 'a list list" where
  "set2 a q k v = a[q := (a ! q)[k := v]]"

subsection \<open>Sparse attention structure\<close>

text \<open>
  The body of both loops of the source: \<^verbatim>\<open>if k > q: a[q, k] = 0\<close>, run over the
  index pairs in order.
\<close>

definition clear_future :: "(nat \<times> nat) list \<Rightarrow> bool list list \<Rightarrow> bool list list" where
  "clear_future idxs a = fold (\<lambda>(q, k) a. if k > q then set2 a q k False else a) idxs a"

text \<open>
  \<^verbatim>\<open>causal_subblock_mask(blk_shape, head_idx, query_idx, key_idx, blk_idx)\<close>: the fine
  mask of one block. \<open>query_idx\<close> and \<open>key_idx\<close> are the block's coordinates in the
  layout.
\<close>

definition causal_subblock_mask ::
  "nat \<times> nat \<Rightarrow> nat \<Rightarrow> nat \<Rightarrow> nat \<Rightarrow> nat \<Rightarrow> bool list list" where
  "causal_subblock_mask blk_shape head_idx query_idx key_idx blk_idx =
     (let mask = ones (fst blk_shape) (snd blk_shape)
      in if query_idx = key_idx
         then clear_future (ndindex (fst blk_shape) (snd blk_shape)) mask
         else mask)"

text \<open>
  The arguments that \<^verbatim>\<open>get_blocksparse_attention_ops\<close> hands to
  \<^verbatim>\<open>BlocksparseTransformer\<close>; the class itself belongs to the kernel library.
\<close>

record bst =
  layout :: "bool list list"
  block_size :: nat
  mask_callback :: "nat \<times> nat \<Rightarrow> nat \<Rightarrow> nat \<Rightarrow> nat \<Rightarrow> nat \<Rightarrow> bool list list"
  heads :: nat

definition blocksize :: nat where
  "blocksize = 64"

definition get_blocksparse_attention_ops :: "int \<Rightarrow> nat \<Rightarrow> py_error + bst" where
  "get_blocksparse_attention_ops n_timesteps n_heads =
     (let n_time_blocks = n_timesteps div int blocksize
      in if n_time_blocks < 0 then Inl NegativeDimError
         else
           let n = nat n_time_blocks;
               layout = clear_future (ndindex n n) (ones n n)
           in Inr \<lparr>layout = layout, block_size = blocksize,
                    mask_callback = causal_subblock_mask, heads = n_heads\<rparr>)"

text \<open>
  Modelled from the spec: how \<^verbatim>\<open>BlocksparseTransformer\<close>, which is not part of the
  example script, combines the two structures. Only blocks whose layout entry is 1 are
  computed, and inside such a block the softmax output is forced to zero where the
  mask returned by the callback is zero. Query position \<open>i\<close> lies in block
  \<open>i div block_size\<close> at offset \<open>i mod block_size\<close>.
\<close>

definition permits :: "bst \<Rightarrow> nat \<Rightarrow> nat \<Rightarrow> nat \<Rightarrow> nat \<Rightarrow> bool" where
  "permits b head_idx blk_idx i j =
     (let bs = block_size b; qb = i div bs; kb = j div bs
      in layout b ! qb ! kb \<and>
         mask_callback b (bs, bs) head_idx qb kb blk_idx ! (i mod bs) ! (j mod bs))"

subsection \<open>Python floats on the host\<close>

text \<open>
  The variable \<^verbatim>\<open>cur_cost_scale\<close> of the training loop is a Python float, an IEEE 754
  double, and the loop only ever multiplies it by \<^verbatim>\<open>0.5\<close> and by \<^verbatim>\<open>2.0\<close>. A finite
  double is an integer multiple \<open>m\<close> of \<open>2\<^sup>-\<^sup>1\<^sup>0\<^sup>7\<^sup>4\<close>, the smallest positive double, where
  \<open>m\<close> has at most 53 significant bits and the magnitude does not exceed the largest
  finite double; \<open>Finite m\<close> stands for \<open>m * 2\<^sup>-\<^sup>1\<^sup>0\<^sup>7\<^sup>4\<close>. The two products are written out
  with their rounding (to nearest, ties to even): halving is exact unless \<open>m\<close> is odd,
  which for a double means a value below \<open>2\<^sup>-\<^sup>1\<^sup>0\<^sup>2\<^sup>1\<close>, and then it rounds to a neighbouring
  multiple, to zero from the smallest double; doubling is exact unless it exceeds the
  largest finite double, and then it is infinite. The sign of a zero is not kept: it
  changes neither a comparison nor a later product's magnitude.
\<close>

datatype double = Finite int | Infinity bool | NaN

definition max_finite :: int where
  "max_finite = (2 ^ 53 - 1) * 2 ^ 2045"

definition is_double :: "double \<Rightarrow> bool" where
  "is_double x =
     (case x of
        Finite m \<Rightarrow> \<bar>m\<bar> \<le> max_finite \<and> (\<exists>k j. m = k * 2 ^ j \<and> \<bar>k\<bar> < 2 ^ 53)
      | Infinity negative \<Rightarrow> True
      | NaN \<Rightarrow> True)"

text \<open>\<^verbatim>\<open>x * 0.5\<close>.\<close>

definition times_half :: "double \<Rightarrow> double" where
  "times_half x =
     (case x of
        Finite m \<Rightarrow>
          if even m then Finite (m div 2)
          else if even (m div 2) then Finite (m div 2)
          else Finite (m div 2 + 1)
      | Infinity negative \<Rightarrow> Infinity negative
      | NaN \<Rightarrow> NaN)"

text \<open>\<^verbatim>\<open>x * 2.0\<close>.\<close>

definition times_two :: "double \<Rightarrow> double" where
  "times_two x =
     (case x of
        Finite m \<Rightarrow> if \<bar>2 * m\<bar> \<le> max_finite then Finite (2 * m) else Infinity (m < 0)
      | Infinity negative \<Rightarrow> Infinity negative
      | NaN \<Rightarrow> NaN)"

subsection \<open>Hyperparameters\<close>

text \<open>The command-line arguments that the modelled code reads.\<close>

record hps =
  hps_n_batch :: int
  hps_n_state :: nat
  hps_n_head :: nat
  hps_n_layer :: nat
  hps_n_timesteps :: int
  hps_n_vocab :: nat
  hps_lr :: real
  hps_cost_scale :: double
  hps_cost_count :: int
  hps_clip_norm :: real
  hps_warmup_iters :: int
  hps_log_stats :: int

subsection \<open>The TensorFlow graph as a term\<close>

text \<open>
  The script only assembles a graph; the operators are the library's. A tensor is
  therefore the term of operator applications that produced it, and a trainable
  variable is named by its full op name, the enclosing variable scopes joined by
  \<^verbatim>\<open>/\<close>. The checks that TensorFlow makes while the graph is built (a variable
  name used twice, operand shapes that do not fit) are the library's and are not
  part of the model; the exceptions that the script's own Python raises are.
\<close>

datatype optimizer = Adafactor | Adam

datatype tensor =
    Placeholder string "nat list"
  | Const real
  | GlobalStep
  | Var string "nat list"
  | FloatCast16 tensor
  | Minimum tensor tensor
  | Mul tensor tensor
  | Div tensor tensor
  | Add tensor tensor
  | Rsqrt tensor
  | EmbeddingLookup tensor tensor
  | Reshape tensor "nat list"
  | MatMul tensor tensor bool
  | BiasRelu tensor tensor bool
  | LayerNorm tensor tensor tensor real bool
  | QueryKeyOp bst tensor tensor
  | MaskedSoftmax bst tensor tensor
  | WeightValueOp bst tensor tensor
  | SoftmaxCrossEntropy tensor tensor
  | ReduceMean tensor
  | ScaleTensor tensor tensor
  | Gradient tensor tensor
  | AllReduce tensor
  | GroupAllReduce "string list" tensor
  | GlobalNorm "tensor list" tensor real
  | NormScale "tensor list" tensor real
  | LogStats tensor string

datatype op =
    ApplyGradients optimizer tensor tensor tensor "(tensor \<times> tensor) list"
  | Group "op list"
  | AssignAdd tensor real "op list"

text \<open>The static shape of a tensor, for the operators whose result shape the script reads.\<close>

fun shape :: "tensor \<Rightarrow> nat list" where
  "shape (Placeholder name s) = s"
| "shape (Var name s) = s"
| "shape (FloatCast16 t) = shape t"
| "shape (EmbeddingLookup e idx) = shape idx @ tl (shape e)"
| "shape (Add a b) =
     (if length (shape a) = length (shape b) then map2 max (shape a) (shape b) else shape a)"
| "shape (Reshape t s) = s"
| "shape (MatMul a b transpose_b) =
     [hd (shape a), if transpose_b then hd (shape b) else last (shape b)]"
| "shape (BiasRelu y b relu) = shape y"
| "shape (LayerNorm x g b eps relu) = shape x"
| "shape (WeightValueOp l w v) = shape v"
| "shape t = []"

text \<open>\<^verbatim>\<open>param.op.name\<close>.\<close>

fun op_name :: "tensor \<Rightarrow> string" where
  "op_name (Var name s) = name"
| "op_name t = []"

text \<open>The trainable variables created so far, in creation order.\<close>

type_synonym variables = "(string \<times> nat list) list"

text \<open>
  \<^verbatim>\<open>tf.get_variable(name, shape)\<close> inside the variable scope \<open>scope\<close> (the full
  path). Every function below that opens a variable scope takes the full path of
  that scope.
\<close>

definition get_variable :: "string \<Rightarrow> string \<Rightarrow> nat list \<Rightarrow> variables \<Rightarrow> tensor \<times> variables" where
  "get_variable scope name s vs =
     (Var (scope @ ''/'' @ name) s, vs @ [(scope @ ''/'' @ name, s)])"

text \<open>\<^verbatim>\<open>tf.trainable_variables()\<close>.\<close>

definition trainable_variables :: "variables \<Rightarrow> tensor list" where
  "trainable_variables vs = map (\<lambda>(name, s). Var name s) vs"

definition fp16 :: "tensor \<Rightarrow> tensor" where
  "fp16 x = FloatCast16 x"

definition layernorm :: "tensor \<Rightarrow> string \<Rightarrow> real \<Rightarrow> bool \<Rightarrow> variables \<Rightarrow> tensor \<times> variables" where
  "layernorm x scope epsilon relu vs =
     (let n_state = last (shape x);
          (gain, vs1) = get_variable scope ''gain'' [n_state] vs;
          (bias, vs2) = get_variable scope ''bias'' [n_state] vs1
      in (LayerNorm x gain bias epsilon relu, vs2))"

text \<open>\<^verbatim>\<open>tf.reshape(t, [-1, n])\<close>: the first dimension is what remains of the size.\<close>

definition reshape_rows :: "tensor \<Rightarrow> nat \<Rightarrow> tensor" where
  "reshape_rows t n = Reshape t [prod_list (shape t) div n, n]"

definition conv1d :: "tensor \<Rightarrow> string \<Rightarrow> nat \<Rightarrow> bool \<Rightarrow> variables \<Rightarrow> tensor \<times> variables" where
  "conv1d x scope nf relu vs =
     (let nx = last (shape x);
          ndims = length (shape x);
          (w, vs1) = get_variable scope ''w'' [nx, nf] vs;
          (b, vs2) = get_variable scope ''b'' [nf] vs1;
          y_shape = take (ndims - 1) (shape x) @ [nf];
          x' = (if ndims > 2 then reshape_rows x nx else x);
          y = BiasRelu (MatMul x' (fp16 w) False) b relu
      in (if ndims > 2 then Reshape y y_shape else y, vs2))"

definition attention ::
  "tensor \<Rightarrow> string \<Rightarrow> nat \<Rightarrow> int \<Rightarrow> variables \<Rightarrow> py_error + tensor \<times> variables" where
  "attention x scope n_head n_timesteps vs =
     (let n_state = last (shape x);
          (queries, vs1) = conv1d x (scope @ ''/q'') n_state False vs;
          (keys, vs2) = conv1d x (scope @ ''/k'') n_state False vs1;
          (values, vs3) = conv1d x (scope @ ''/v'') n_state False vs2
      in case get_blocksparse_attention_ops n_timesteps n_head of
           Inl e \<Rightarrow> Inl e
         | Inr bst \<Rightarrow>
             if n_head = 0 then Inl ZeroDivisionError
             else
               let attention_energies = QueryKeyOp bst queries keys;
                   attention_weights = MaskedSoftmax bst attention_energies
                     (Rsqrt (Const (real n_state / real n_head)));
                   weighted_values = WeightValueOp bst attention_weights values;
                   (result, vs4) = conv1d weighted_values (scope @ ''/proj'') n_state False vs3
               in Inr (result, vs4))"

definition mlp :: "tensor \<Rightarrow> string \<Rightarrow> nat \<Rightarrow> variables \<Rightarrow> tensor \<times> variables" where
  "mlp x scope ratio vs =
     (let n_state = last (shape x);
          (hidden, vs1) = conv1d x (scope @ ''/hidden'') (n_state * ratio) True vs;
          (residual, vs2) = conv1d hidden (scope @ ''/residual'') n_state False vs1
      in (Add x residual, vs2))"

definition transformer_block ::
  "tensor \<Rightarrow> string \<Rightarrow> nat \<Rightarrow> int \<Rightarrow> variables \<Rightarrow> py_error + tensor \<times> variables" where
  "transformer_block x scope n_head n_timesteps vs =
     (case attention x (scope @ ''/attention'') n_head n_timesteps vs of
        Inl e \<Rightarrow> Inl e
      | Inr (a, vs1) \<Rightarrow>
          let (a', vs2) = layernorm (Add a x) (scope @ ''/norm_a'') (1 / 100000) False vs1;
              (m, vs3) = mlp a' (scope @ ''/mlp'') 4 vs2;
              (m', vs4) = layernorm (Add m a') (scope @ ''/norm_m'') (1 / 100000) False vs3
          in Inr (m', vs4))"

text \<open>\<^verbatim>\<open>'%d' % l\<close> for a non-negative \<open>l\<close>.\<close>

fun str_nat :: "nat \<Rightarrow> string" where
  "str_nat n =
     (if n < 10 then [char_of (48 + n)]
      else str_nat (n div 10) @ [char_of (48 + n mod 10)])"

declare str_nat.simps [simp del]

text \<open>\<^verbatim>\<open>sep.join(parts)\<close>.\<close>

fun join :: "string \<Rightarrow> string list \<Rightarrow> string" where
  "join sep [] = []"
| "join sep [p] = p"
| "join sep (p # q # ps) = p @ sep @ join sep (q # ps)"

text \<open>\<^verbatim>\<open>needle in haystack\<close> on strings: the needle starts at some position.\<close>

fun py_in :: "string \<Rightarrow> string \<Rightarrow> bool" where
  "py_in needle [] = (needle = [])"
| "py_in needle (c # cs) = (take (length needle) (c # cs) = needle \<or> py_in needle cs)"

text \<open>The loop over the layers in \<^verbatim>\<open>model\<close>, with the list \<open>grad_groups\<close> it extends.\<close>

primrec layers ::
  "hps \<Rightarrow> nat list \<Rightarrow> tensor \<Rightarrow> variables \<Rightarrow> string list \<Rightarrow>
   py_error + tensor \<times> variables \<times> string list" where
  "layers hps [] h vs grad_groups = Inr (h, vs, grad_groups)"
| "layers hps (l # ls) h vs grad_groups =
     (let layer_name = ''layer_'' @ str_nat l
      in case transformer_block h (''model/'' @ layer_name) (hps_n_head hps)
                (hps_n_timesteps hps) vs of
           Inl e \<Rightarrow> Inl e
         | Inr (h', vs') \<Rightarrow> layers hps ls h' vs' (layer_name # grad_groups))"

text \<open>
  The first part of \<^verbatim>\<open>model\<close>, from the embedding to the logits, with the values of
  its local variables at the end.
\<close>

record forward_out =
  fw_x_embed :: tensor
  fw_pos_embed :: tensor
  fw_embedded :: tensor
  fw_h :: tensor
  fw_logits :: tensor
  fw_variables :: variables
  fw_grad_groups :: "string list"

definition forward :: "hps \<Rightarrow> tensor \<Rightarrow> py_error + forward_out" where
  "forward hps xs =
     (if hps_n_timesteps hps < 0 then Inl NegativeDimError
      else
        let (x, vs1) = get_variable ''model/embed'' ''x''
                         [hps_n_vocab hps, hps_n_state hps] [];
            x_embed = fp16 x;
            (pos, vs2) = get_variable ''model/embed'' ''pos''
                           [1, nat (hps_n_timesteps hps), hps_n_state hps] vs1;
            pos_embed = fp16 pos;
            h = Add (EmbeddingLookup x_embed xs) pos_embed
        in case layers hps [0..<hps_n_layer hps] h vs2 [''embed''] of
             Inl e \<Rightarrow> Inl e
           | Inr (h', vs3, grad_groups) \<Rightarrow>
               let h'' = reshape_rows h' (hps_n_state hps);
                   logits = MatMul h'' x_embed True
               in Inr \<lparr>fw_x_embed = x_embed, fw_pos_embed = pos_embed, fw_embedded = h,
                        fw_h = h'', fw_logits = logits, fw_variables = vs3,
                        fw_grad_groups = grad_groups\<rparr>)"

text \<open>The loop that sorts the (gradient, parameter) pairs into the two optimizers' lists.\<close>

definition split_grads ::
  "(tensor \<times> tensor) list \<Rightarrow> (tensor \<times> tensor) list \<times> (tensor \<times> tensor) list" where
  "split_grads gps =
     fold (\<lambda>(grad, param) (fact_grads, adam_grads).
             if py_in ''embed'' (op_name param)
             then (fact_grads, adam_grads @ [(grad, param)])
             else (fact_grads @ [(grad, param)], adam_grads))
          gps ([], [])"

text \<open>The name under which \<^verbatim>\<open>log_stats\<close> records a gradient.\<close>

definition stats_name :: "tensor \<Rightarrow> string" where
  "stats_name param = op_name param @ ''_'' @ join ''_'' (map str_nat (shape param))"

text \<open>
  The gradients of the scaled loss, all-reduced in place by \<^verbatim>\<open>group_allreduce\<close> when
  there are several processes.
\<close>

definition reduced_grads ::
  "int \<Rightarrow> string list \<Rightarrow> tensor \<Rightarrow> tensor list \<Rightarrow> tensor \<Rightarrow> tensor list" where
  "reduced_grads mpi_size grad_groups loss params cost_scale =
     (let grads = map (Gradient (ScaleTensor loss cost_scale)) params
      in if mpi_size > 1 then map (GroupAllReduce grad_groups) grads else grads)"

text \<open>The loop that wraps every gradient in \<^verbatim>\<open>log_stats\<close>, when asked for on rank 0.\<close>

definition logged_grads :: "hps \<Rightarrow> int \<Rightarrow> tensor list \<Rightarrow> tensor list \<Rightarrow> tensor list" where
  "logged_grads hps mpi_rank grads params =
     (if hps_log_stats hps \<noteq> 0 \<and> mpi_rank = 0
      then map (\<lambda>(grad, param). LogStats grad (stats_name param)) (zip grads params)
      else grads)"

record model_out =
  out_loss :: tensor
  out_train_op :: op
  out_global_norm :: tensor
  out_norm_scale :: tensor

definition model ::
  "hps \<Rightarrow> int \<Rightarrow> int \<Rightarrow> tensor \<Rightarrow> tensor \<Rightarrow> tensor \<Rightarrow> tensor \<Rightarrow> py_error + model_out" where
  "model hps mpi_size mpi_rank xs ys cost_scale grad_scale =
     (if hps_warmup_iters hps = 0 then Inl ZeroDivisionError
      else
        let global_step = GlobalStep;
            learning_rate =
              Mul (Minimum (Mul global_step (Const (1 / real_of_int (hps_warmup_iters hps))))
                           (Const 1))
                  (Const (hps_lr hps))
        in case forward hps xs of
             Inl e \<Rightarrow> Inl e
           | Inr fw \<Rightarrow>
               let local_loss = ReduceMean (SoftmaxCrossEntropy (fw_logits fw) ys);
                   params = trainable_variables (fw_variables fw);
                   grads = reduced_grads mpi_size (fw_grad_groups fw) local_loss params
                             cost_scale;
                   loss = (if mpi_size > 1
                           then Mul (AllReduce local_loss) (Const (1 / real_of_int mpi_size))
                           else local_loss);
                   global_norm = GlobalNorm grads grad_scale (hps_clip_norm hps);
                   norm_scale = NormScale grads grad_scale (hps_clip_norm hps);
                   grads = logged_grads hps mpi_rank grads params;
                   (fact_grads, adam_grads) = split_grads (zip grads params);
                   fact = ApplyGradients Adafactor learning_rate norm_scale grad_scale fact_grads;
                   adam = ApplyGradients Adam learning_rate norm_scale grad_scale adam_grads;
                   train_op = Group [fact, adam];
                   update_op = AssignAdd global_step 1 [train_op]
               in Inr \<lparr>out_loss = loss, out_train_op = Group [train_op, update_op],
                        out_global_norm = global_norm, out_norm_scale = norm_scale\<rparr>)"

text \<open>
  The graph that \<^verbatim>\<open>__main__\<close> builds: the two input placeholders, the host-side
  placeholder \<open>cost_scale\<close>, the gradient scale computed from it, and the call of
  \<^verbatim>\<open>model\<close> on them.
\<close>

definition cost_scale_placeholder :: tensor where
  "cost_scale_placeholder = Placeholder ''cost_scale'' []"

definition main_grad_scale :: "int \<Rightarrow> tensor" where
  "main_grad_scale mpi_size =
     Div (Const 1.0) (Mul cost_scale_placeholder (Const (real_of_int mpi_size)))"

definition main_X :: "hps \<Rightarrow> tensor" where
  "main_X hps = Placeholder ''X'' [nat (hps_n_batch hps), nat (hps_n_timesteps hps)]"

definition main_Y :: "hps \<Rightarrow> tensor" where
  "main_Y hps = Placeholder ''Y'' [nat (hps_n_batch hps), nat (hps_n_timesteps hps)]"

definition main_model :: "hps \<Rightarrow> int \<Rightarrow> int \<Rightarrow> py_error + model_out" where
  "main_model hps mpi_size mpi_rank =
     model hps mpi_size mpi_rank (main_X hps) (main_Y hps) cost_scale_placeholder
       (main_grad_scale mpi_size)"

text \<open>
  The value of a host-side scalar of the graph, given the values \<open>feed\<close> fed for the
  placeholders, in exact arithmetic: the values are real numbers, not \<^verbatim>\<open>float32\<close>. (A
  division by zero, infinite in TensorFlow, is \<open>0\<close> here; the properties below are
  about a nonzero divisor.)
\<close>

fun scalar_value :: "(tensor \<Rightarrow> real) \<Rightarrow> tensor \<Rightarrow> real" where
  "scalar_value feed (Const c) = c"
| "scalar_value feed (Mul a b) = scalar_value feed a * scalar_value feed b"
| "scalar_value feed (Div a b) = scalar_value feed a / scalar_value feed b"
| "scalar_value feed t = feed t"

text \<open>
  Modelled from the spec: the operators on the gradient path (\<^verbatim>\<open>tf.gradients\<close> through
  \<^verbatim>\<open>scale_tensor\<close>, \<^verbatim>\<open>group_allreduce\<close>, \<^verbatim>\<open>log_stats\<close>) belong to the framework and the
  library. \<open>g r l p\<close> is the gradient of the loss \<open>l\<close> with respect to \<open>p\<close> that
  process \<open>r\<close> computes. The gradient of a loss scaled by \<open>c\<close> is \<open>c\<close> times the
  gradient of the loss, the all-reduce is the sum over the \<open>n\<close> processes, and
  \<^verbatim>\<open>log_stats\<close> passes its input through. One real number stands for a gradient, the
  operators acting on every component alike.
\<close>

fun gradient_value ::
  "(tensor \<Rightarrow> real) \<Rightarrow> (nat \<Rightarrow> tensor \<Rightarrow> tensor \<Rightarrow> real) \<Rightarrow> nat \<Rightarrow> nat \<Rightarrow> tensor \<Rightarrow> real" where
  "gradient_value feed g n r (Gradient (ScaleTensor l c) p) = scalar_value feed c * g r l p"
| "gradient_value feed g n r (Gradient y p) = g r y p"
| "gradient_value feed g n r (GroupAllReduce groups t) =
     (\<Sum>r' \<leftarrow> [0..<n]. gradient_value feed g n r' t)"
| "gradient_value feed g n r (LogStats t name) = gradient_value feed g n r t"
| "gradient_value feed g n r t = 0"

text \<open>
  Modelled from the spec: the optimizers are the library's; each multiplies the
  gradient it is given by its \<open>grad_scale\<close> argument (and by \<open>norm_scale\<close>, the
  clipping factor, which is left out here).
\<close>

definition applied_gradient ::
  "(tensor \<Rightarrow> real) \<Rightarrow> (nat \<Rightarrow> tensor \<Rightarrow> tensor \<Rightarrow> real) \<Rightarrow> nat \<Rightarrow> nat \<Rightarrow> tensor \<Rightarrow> tensor \<Rightarrow> real" where
  "applied_gradient feed g n r grad grad_scale =
     gradient_value feed g n r grad * scalar_value feed grad_scale"

text \<open>
  A small configuration; \<open>cost_scale\<close> and \<open>cost_count\<close> are the defaults of the argument
  parser, \<^verbatim>\<open>2.0**16\<close> (which is \<open>2\<^sup>1\<^sup>0\<^sup>9\<^sup>0\<close> smallest doubles) and \<^verbatim>\<open>2000\<close>.
\<close>

definition demo_hps :: hps where
  "demo_hps = \<lparr>hps_n_batch = 2, hps_n_state = 8, hps_n_head = 2, hps_n_layer = 2,
     hps_n_timesteps = 64, hps_n_vocab = 256, hps_lr = 1/2000, hps_cost_scale = Finite (2 ^ 1090),
     hps_cost_count = 2000, hps_clip_norm = 1, hps_warmup_iters = 1000, hps_log_stats = 0\<rparr>"

text \<open>
  Modelled from the spec: \<^verbatim>\<open>allreduce\<close> belongs to the library's \<^verbatim>\<open>nccl\<close> module; it
  is taken as summation over the \<open>n\<close> processes. \<open>local r t\<close> is the value that process
  \<open>r\<close> computes for a tensor \<open>t\<close> that involves no communication.
\<close>

fun value_of :: "(nat \<Rightarrow> tensor \<Rightarrow> real) \<Rightarrow> nat \<Rightarrow> nat \<Rightarrow> tensor \<Rightarrow> real" where
  "value_of local n r (Mul a b) = value_of local n r a * value_of local n r b"
| "value_of local n r (Const c) = c"
| "value_of local n r (AllReduce a) = (\<Sum>r' \<leftarrow> [0..<n]. value_of local n r' a)"
| "value_of local n r t = local r t"

text \<open>A small configuration and two input placeholders, for concrete instances.\<close>

definition demo_x :: tensor where
  "demo_x = Placeholder ''X'' [2, 64]"

definition demo_y :: tensor where
  "demo_y = Placeholder ''Y'' [2, 64]"

subsection \<open>Loss scaling in the training loop\<close>





subsection \<open>Data loading\<close>

text \<open>
  Python's \<^verbatim>\<open>xs[a:b]\<close>: a negative bound counts from the end, and both bounds are
  clipped to the list.
\<close>

definition py_norm :: "nat \<Rightarrow> int \<Rightarrow> nat" where
  "py_norm n i = (if i < 0 then nat (max 0 (int n + i)) else min (nat i) n)"

definition py_slice :: "'a list \<Rightarrow> int \<Rightarrow> int \<Rightarrow> 'a list" where
  "py_slice xs a b = drop (py_norm (length xs) a) (take (py_norm (length xs) b) xs)"

text \<open>
  Python's \<^verbatim>\<open>xs[i]\<close> along one axis: an index from \<open>-len\<close> to \<open>-1\<close> counts from the
  end, and anything outside \<open>[-len, len)\<close> raises.
\<close>

definition py_index :: "'a list \<Rightarrow> int \<Rightarrow> py_error + 'a" where
  "py_index xs i =
     (if 0 \<le> i \<and> i < int (length xs) then Inr (xs ! nat i)
      else if i < 0 \<and> - int (length xs) \<le> i then Inr (xs ! nat (int (length xs) + i))
      else Inl IndexError)"

text \<open>
  \<^verbatim>\<open>np.arange(start, stop, step)\<close> for a positive step: \<open>ceil((stop - start) / step)\<close>
  elements, none if that is negative. \<^verbatim>\<open>iter_data\<close> reaches it with a positive step
  only.
\<close>

definition arange :: "int \<Rightarrow> int \<Rightarrow> int \<Rightarrow> int list" where
  "arange start stop step =
     map (\<lambda>k. start + int k * step) [0..<nat ((stop - start + step - 1) div step)]"

text \<open>\<open>k\<close> consecutive rows of width \<open>n\<close>, in row-major order.\<close>

primrec rows :: "nat \<Rightarrow> nat \<Rightarrow> 'a list \<Rightarrow> 'a list list" where
  "rows 0 n xs = []"
| "rows (Suc k) n xs = take n xs # rows k n (drop n xs)"

text \<open>\<^verbatim>\<open>xs.reshape([-1, a, b])\<close> of a one-dimensional array.\<close>

definition reshape3 :: "'a list \<Rightarrow> int \<Rightarrow> int \<Rightarrow> py_error + 'a list list list" where
  "reshape3 xs a b =
     (if a < 0 \<or> b < 0 \<or> a * b = 0 then Inl ReshapeError
      else if int (length xs) mod (a * b) \<noteq> 0 then Inl ReshapeError
      else
        let k = length xs div nat (a * b)
        in Inr (rows k (nat a) (rows (k * nat a) (nat b) xs)))"

text \<open>\<^verbatim>\<open>np.zeros((n, m), dtype=np.uint8)\<close>.\<close>

definition zeros :: "int \<Rightarrow> int \<Rightarrow> py_error + 8 word list list" where
  "zeros n m =
     (if n < 0 \<or> m < 0 then Inl NegativeDimError
      else Inr (replicate (nat n) (replicate (nat m) 0)))"

text \<open>
  \<^verbatim>\<open>x[i, :] = v\<close> for a row of width \<open>n\<close>: the value must have the row's length, or
  length one, which NumPy broadcasts.
\<close>

definition assign_row :: "'a list \<Rightarrow> nat \<Rightarrow> py_error + 'a list" where
  "assign_row v n =
     (if length v = n then Inr v
      else if length v = 1 then Inr (replicate n (hd v))
      else Inl BroadcastError)"

text \<open>
  The start indices of an epoch, reshaped to \<open>K * mpi_size * n_batch\<close>. The two random
  draws are arguments: \<open>offset\<close> is what \<^verbatim>\<open>np.random.randint(0, n_timesteps)\<close>
  returned and \<open>permutation\<close> is the shuffle that \<^verbatim>\<open>np.random.permutation\<close> applied.
\<close>

definition start_indices ::
  "8 word list \<Rightarrow> int \<Rightarrow> int \<Rightarrow> int \<Rightarrow> int \<Rightarrow> (int list \<Rightarrow> int list) \<Rightarrow>
   py_error + int list list list" where
  "start_indices X n_timesteps n_batch mpi_size offset permutation =
     (if n_timesteps \<le> 0 then Inl RandintError
      else
        let idxs = permutation (arange offset (int (length X) - (n_timesteps + 1)) n_timesteps);
            sequences_per_batch = mpi_size * n_batch
        in if sequences_per_batch = 0 then Inl ZeroDivisionError
           else
             let len = (int (length idxs) div sequences_per_batch) * sequences_per_batch
             in reshape3 (py_slice idxs 0 len) mpi_size n_batch)"

text \<open>The inner loop: row \<open>i\<close> of the buffer receives the slice that starts at \<open>start_idx\<close>.\<close>

primrec fill_rows ::
  "8 word list \<Rightarrow> int \<Rightarrow> int list \<Rightarrow> nat \<Rightarrow> 8 word list list \<Rightarrow>
   py_error + 8 word list list" where
  "fill_rows X n_timesteps [] i x = Inr x"
| "fill_rows X n_timesteps (start_idx # rest) i x =
     (if length x \<le> i then Inl IndexError
      else
        case assign_row (py_slice X start_idx (start_idx + n_timesteps + 1))
               (nat (n_timesteps + 1)) of
          Inl e \<Rightarrow> Inl e
        | Inr row \<Rightarrow> fill_rows X n_timesteps rest (Suc i) (x[i := row]))"

text \<open>
  One pass of the outer loop, for the minibatch whose start indices (one row per rank)
  are \<open>per_rank\<close>: the pair \<^verbatim>\<open>(x[:, :-1], x[:, 1:])\<close> that is yielded.
\<close>

definition minibatch ::
  "8 word list \<Rightarrow> int \<Rightarrow> int \<Rightarrow> int \<Rightarrow> int list list \<Rightarrow>
   py_error + 8 word list list \<times> 8 word list list" where
  "minibatch X n_timesteps n_batch mpi_rank per_rank =
     (case py_index per_rank mpi_rank of
        Inl e \<Rightarrow> Inl e
      | Inr starting_indices \<Rightarrow>
          (case zeros n_batch (n_timesteps + 1) of
             Inl e \<Rightarrow> Inl e
           | Inr x0 \<Rightarrow>
               (case fill_rows X n_timesteps starting_indices 0 x0 of
                  Inl e \<Rightarrow> Inl e
                | Inr x \<Rightarrow> Inr (map butlast x, map tl x))))"

text \<open>
  The generator: the pairs it yields, in order, and the exception that ended it, if
  one did. What \<^verbatim>\<open>print_rank0\<close> prints is left out.
\<close>

primrec run_batches ::
  "8 word list \<Rightarrow> int \<Rightarrow> int \<Rightarrow> int \<Rightarrow> int list list list \<Rightarrow>
   (8 word list list \<times> 8 word list list) list \<times> py_error option" where
  "run_batches X n_timesteps n_batch mpi_rank [] = ([], None)"
| "run_batches X n_timesteps n_batch mpi_rank (per_rank # rest) =
     (case minibatch X n_timesteps n_batch mpi_rank per_rank of
        Inl e \<Rightarrow> ([], Some e)
      | Inr p \<Rightarrow>
          (let (ps, err) = run_batches X n_timesteps n_batch mpi_rank rest
           in (p # ps, err)))"

definition iter_data ::
  "8 word list \<Rightarrow> int \<Rightarrow> int \<Rightarrow> int \<Rightarrow> int \<Rightarrow> int \<Rightarrow> (int list \<Rightarrow> int list) \<Rightarrow>
   (8 word list list \<times> 8 word list list) list \<times> py_error option" where
  "iter_data X n_timesteps n_batch mpi_rank mpi_size offset permutation =
     (case start_indices X n_timesteps n_batch mpi_size offset permutation of
        Inl e \<Rightarrow> ([], Some e)
      | Inr idxs \<Rightarrow> run_batches X n_timesteps n_batch mpi_rank idxs)"

text \<open>The shape of a two-dimensional array given as its rows.\<close>

definition shape2 :: "'a list list \<Rightarrow> nat \<times> nat list" where
  "shape2 x = (length x, map length x)"

text \<open>A twelve-byte array, for concrete instances.\<close>

definition demo_X :: "8 word list" where
  "demo_X = map of_nat [0..<12]"

subsection \<open>Reading the corpus\<close>

text \<open>
  \<^verbatim>\<open>enwik8\<close> opens the file with \<^verbatim>\<open>open(path)\<close>, that is in text mode with universal
  newlines, reads characters, and hands the resulting \<^verbatim>\<open>str\<close> to \<^verbatim>\<open>np.fromstring\<close>,
  which takes the UTF-8 encoding of a \<^verbatim>\<open>str\<close> as its bytes. A file is therefore given
  by the characters it decodes to (code points, UTF-8 being the encoding of the file);
  its bytes are their encoding.
\<close>

definition utf8_encode :: "nat \<Rightarrow> 8 word list" where
  "utf8_encode c =
     (if c < 128 then [of_nat c]
      else if c < 2048 then [of_nat (192 + c div 64), of_nat (128 + c mod 64)]
      else if c < 65536
      then [of_nat (224 + c div 4096), of_nat (128 + c div 64 mod 64), of_nat (128 + c mod 64)]
      else [of_nat (240 + c div 262144), of_nat (128 + c div 4096 mod 64),
            of_nat (128 + c div 64 mod 64), of_nat (128 + c mod 64)])"

definition file_bytes :: "nat list \<Rightarrow> 8 word list" where
  "file_bytes chars = concat (map utf8_encode chars)"

text \<open>
  Universal newlines on input: \<^verbatim>\<open>\r\n\<close> and a lone \<^verbatim>\<open>\r\<close> are both returned as
  \<^verbatim>\<open>\n\<close>.
\<close>

fun universal_newlines :: "nat list \<Rightarrow> nat list" where
  "universal_newlines [] = []"
| "universal_newlines [c] = [if c = 13 then 10 else c]"
| "universal_newlines (c # d # cs) =
     (if c = 13 \<and> d = 10 then 10 # universal_newlines cs
      else (if c = 13 then 10 else c) # universal_newlines (d # cs))"

text \<open>\<^verbatim>\<open>open(path).read(n)\<close>: at most \<open>n\<close> characters, all of them for a negative \<open>n\<close>.\<close>

definition read_text :: "nat list \<Rightarrow> int \<Rightarrow> nat list" where
  "read_text chars n =
     (if n < 0 then universal_newlines chars else take (nat n) (universal_newlines chars))"

text \<open>\<^verbatim>\<open>np.fromstring(s, dtype=np.uint8)\<close> for a \<^verbatim>\<open>str\<close>.\<close>

definition fromstring :: "nat list \<Rightarrow> 8 word list" where
  "fromstring s = concat (map utf8_encode s)"

text \<open>\<^verbatim>\<open>np.split(X, [a, b])\<close>: the slices \<^verbatim>\<open>X[0:a]\<close>, \<^verbatim>\<open>X[a:b]\<close> and \<^verbatim>\<open>X[b:]\<close>.\<close>

definition split3 :: "'a list \<Rightarrow> int \<Rightarrow> int \<Rightarrow> 'a list \<times> 'a list \<times> 'a list" where
  "split3 X a b = (py_slice X 0 a, py_slice X a b, py_slice X b (int (length X)))"

definition enwik8 ::
  "nat list \<Rightarrow> int \<Rightarrow> int \<Rightarrow> int \<Rightarrow> 8 word list \<times> 8 word list \<times> 8 word list" where
  "enwik8 chars n_train n_valid n_test =
     (let X = fromstring (read_text chars (n_train + n_valid + n_test))
      in split3 X n_train (n_train + n_valid))"

section \<open>Properties\<close>

subsection \<open>Causal structure\<close>

lemma length_set2: "length (set2 a q k v) = length a"
  by (simp add: set2_def)

lemma length_row_set2: "length (set2 a q k v ! r) = length (a ! r)"
proof (cases "q < length a")
  case True
  then show ?thesis
    by (cases "r = q") (simp_all add: set2_def)
next
  case False
  then show ?thesis
    by (simp add: set2_def list_update_beyond)
qed

lemma nth_set2:
  "r < length a \<Longrightarrow> c < length (a ! r) \<Longrightarrow>
   set2 a q k v ! r ! c = (if r = q \<and> c = k then v else a ! r ! c)"
  by (cases "r = q"; cases "c = k") (simp_all add: set2_def)

lemma clear_future_shape:
  "length (clear_future idxs a) = length a \<and>
   length (clear_future idxs a ! r) = length (a ! r)"
  unfolding clear_future_def
  by (induction idxs arbitrary: a) (auto simp: length_set2 length_row_set2)

lemma nth_clear_future:
  "r < length a \<Longrightarrow> c < length (a ! r) \<Longrightarrow>
   clear_future idxs a ! r ! c = (a ! r ! c \<and> \<not> ((r, c) \<in> set idxs \<and> c > r))"
proof (induction idxs arbitrary: a)
  case Nil
  show ?case by (simp add: clear_future_def)
next
  case (Cons p idxs)
  obtain q k where p: "p = (q, k)" by (cases p)
  define a' where "a' = (if k > q then set2 a q k False else a)"
  have step: "clear_future (p # idxs) a = clear_future idxs a'"
    by (simp add: clear_future_def p a'_def)
  have len: "r < length a'" "c < length (a' ! r)"
    using Cons.prems by (simp_all add: a'_def length_set2 length_row_set2)
  have here: "a' ! r ! c = (a ! r ! c \<and> \<not> ((r, c) = (q, k) \<and> c > r))"
    using Cons.prems by (auto simp: a'_def nth_set2)
  have "clear_future (p # idxs) a ! r ! c = (a' ! r ! c \<and> \<not> ((r, c) \<in> set idxs \<and> c > r))"
    using Cons.IH [OF len] step by simp
  then show ?case
    using here p by auto
qed

lemma nth_ones: "r < n \<Longrightarrow> c < m \<Longrightarrow> ones n m ! r ! c"
  by (simp add: ones_def)

lemma set_ndindex: "set (ndindex n m) = {(q, k). q < n \<and> k < m}"
  by (auto simp: ndindex_def)

lemma layout_lower_triangular:
  assumes "qb < n" "kb < n"
  shows "clear_future (ndindex n n) (ones n n) ! qb ! kb = (kb \<le> qb)"
proof -
  have "qb < length (ones n n)" "kb < length (ones n n ! qb)"
    using assms by (simp_all add: ones_def)
  then show ?thesis
    using assms by (auto simp: nth_clear_future set_ndindex nth_ones)
qed

lemma mask_diagonal:
  assumes "q < h" "k < w"
  shows "causal_subblock_mask (h, w) head_idx b b blk_idx ! q ! k = (k \<le> q)"
proof -
  have "q < length (ones h w)" "k < length (ones h w ! q)"
    using assms by (simp_all add: ones_def)
  then show ?thesis
    using assms
    by (auto simp: causal_subblock_mask_def nth_clear_future set_ndindex nth_ones)
qed

lemma mask_off_diagonal:
  assumes "q < h" "k < w" "qb \<noteq> kb"
  shows "causal_subblock_mask (h, w) head_idx qb kb blk_idx ! q ! k"
  using assms by (simp add: causal_subblock_mask_def nth_ones)

lemma block_order:
  fixes i j :: nat
  shows "(j div 64 \<le> i div 64 \<and> (j div 64 = i div 64 \<longrightarrow> j mod 64 \<le> i mod 64)) = (j \<le> i)"
proof -
  define a r c s where "a = i div 64" and "r = i mod 64" and "c = j div 64" and "s = j mod 64"
  have "i = 64 * a + r" and "j = 64 * c + s" and "r < 64" and "s < 64"
    by (simp_all add: a_def r_def c_def s_def)
  then have "(c \<le> a \<and> (c = a \<longrightarrow> s \<le> r)) = (j \<le> i)"
    by arith
  then show ?thesis
    by (simp add: a_def r_def c_def s_def)
qed

text \<open>
  C1. For every \<open>n_timesteps\<close> that is a positive multiple of 64,
  \<^verbatim>\<open>get_blocksparse_attention_ops\<close> succeeds and the structure it builds is exactly
  causal: the coarse layout has \<open>layout[qb][kb] = 1\<close> iff \<open>kb \<le> qb\<close>; the fine mask
  of \<^verbatim>\<open>causal_subblock_mask\<close> is all ones for every off-diagonal block and, for
  every diagonal block, has \<open>mask[q][k] = 0\<close> iff \<open>k > q\<close>; and the combination
  permits attention from query position \<open>i\<close> to key position \<open>j\<close> iff \<open>j \<le> i\<close>.
\<close>

theorem attention_structure_causal:
  assumes "0 < m" and "n_timesteps = 64 * int m"
  shows "\<exists>b. get_blocksparse_attention_ops n_timesteps n_heads = Inr b \<and>
    block_size b = 64 \<and> length (layout b) = m \<and>
    (\<forall>qb kb. qb < m \<longrightarrow> kb < m \<longrightarrow> layout b ! qb ! kb = (kb \<le> qb)) \<and>
    (\<forall>qb kb q k head_idx blk_idx. qb \<noteq> kb \<longrightarrow> q < 64 \<longrightarrow> k < 64 \<longrightarrow>
       mask_callback b (64, 64) head_idx qb kb blk_idx ! q ! k) \<and>
    (\<forall>qb q k head_idx blk_idx. q < 64 \<longrightarrow> k < 64 \<longrightarrow>
       (\<not> mask_callback b (64, 64) head_idx qb qb blk_idx ! q ! k) = (k > q)) \<and>
    (\<forall>i j head_idx blk_idx. i < 64 * m \<longrightarrow> j < 64 * m \<longrightarrow>
       permits b head_idx blk_idx i j = (j \<le> i))"
proof -
  define b where "b = \<lparr>layout = clear_future (ndindex m m) (ones m m), block_size = blocksize,
    mask_callback = causal_subblock_mask, heads = n_heads\<rparr>"
  have blocks: "n_timesteps div int blocksize = int m"
    using assms by (simp add: blocksize_def)
  have ops: "get_blocksparse_attention_ops n_timesteps n_heads = Inr b"
    by (simp add: get_blocksparse_attention_ops_def blocks b_def Let_def)
  have bs: "block_size b = 64"
    by (simp add: b_def blocksize_def)
  have len: "length (layout b) = m"
    by (simp add: b_def clear_future_shape ones_def)
  have lay: "layout b ! qb ! kb = (kb \<le> qb)" if "qb < m" "kb < m" for qb kb
    using that by (simp add: b_def layout_lower_triangular)
  have off: "mask_callback b (64, 64) head_idx qb kb blk_idx ! q ! k"
    if "qb \<noteq> kb" "q < 64" "k < 64" for qb kb q k head_idx blk_idx
    using that by (simp add: b_def mask_off_diagonal)
  have diag: "(\<not> mask_callback b (64, 64) head_idx qb qb blk_idx ! q ! k) = (k > q)"
    if "q < 64" "k < 64" for qb q k head_idx blk_idx
    using that by (auto simp: b_def mask_diagonal)
  have perm: "permits b head_idx blk_idx i j = (j \<le> i)"
    if "i < 64 * m" "j < 64 * m" for i j head_idx blk_idx
  proof -
    have qb: "i div 64 < m" and kb: "j div 64 < m"
      using that by (simp_all add: less_mult_imp_div_less mult.commute)
    have q: "i mod 64 < 64" and k: "j mod 64 < 64"
      by simp_all
    have "permits b head_idx blk_idx i j =
      (layout b ! (i div 64) ! (j div 64) \<and>
       mask_callback b (64, 64) head_idx (i div 64) (j div 64) blk_idx ! (i mod 64) ! (j mod 64))"
      by (simp add: permits_def bs Let_def)
    also have "\<dots> = (j div 64 \<le> i div 64 \<and> (j div 64 = i div 64 \<longrightarrow> j mod 64 \<le> i mod 64))"
    proof (cases "i div 64 = j div 64")
      case True
      then show ?thesis
        using lay [OF qb kb] diag [OF q k, of head_idx "j div 64" blk_idx] by auto
    next
      case False
      then show ?thesis
        using lay [OF qb kb] off [OF False q k, of head_idx blk_idx] by auto
    qed
    also have "\<dots> = (j \<le> i)"
      by (rule block_order)
    finally show ?thesis .
  qed
  show ?thesis
    by (intro exI [of _ b] conjI allI impI) (simp_all add: ops bs len lay off diag perm)
qed

theorem attention_structure_causal_witness:
  "\<exists>b. get_blocksparse_attention_ops 128 4 = Inr b \<and> length (layout b) = 2 \<and>
     layout b ! 1 ! 0 \<and> \<not> layout b ! 0 ! 1 \<and>
     mask_callback b (64, 64) 0 1 0 2 ! 3 ! 5 \<and>
     \<not> mask_callback b (64, 64) 0 1 1 2 ! 3 ! 5 \<and>
     permits b 0 0 70 5 \<and> permits b 0 0 70 70 \<and>
     \<not> permits b 0 0 70 71 \<and> \<not> permits b 0 0 5 70"
proof -
  have "(0::nat) < 2" and "(128::int) = 64 * int 2"
    by simp_all
  from attention_structure_causal [OF this, of 4]
  obtain b where b: "get_blocksparse_attention_ops 128 4 = Inr b \<and>
    block_size b = 64 \<and> length (layout b) = 2 \<and>
    (\<forall>qb kb. qb < 2 \<longrightarrow> kb < 2 \<longrightarrow> layout b ! qb ! kb = (kb \<le> qb)) \<and>
    (\<forall>qb kb q k head_idx blk_idx. qb \<noteq> kb \<longrightarrow> q < 64 \<longrightarrow> k < 64 \<longrightarrow>
       mask_callback b (64, 64) head_idx qb kb blk_idx ! q ! k) \<and>
    (\<forall>qb q k head_idx blk_idx. q < 64 \<longrightarrow> k < 64 \<longrightarrow>
       (\<not> mask_callback b (64, 64) head_idx qb qb blk_idx ! q ! k) = (k > q)) \<and>
    (\<forall>i j head_idx blk_idx. i < 64 * 2 \<longrightarrow> j < 64 * 2 \<longrightarrow>
       permits b head_idx blk_idx i j = (j \<le> i))" ..
  show ?thesis
    using b by (intro exI [of _ b]) simp
qed

subsection \<open>The model graph\<close>

lemma py_in_iff: "py_in needle hay \<longleftrightarrow> (\<exists>a b. hay = a @ needle @ b)"
proof (induction hay)
  case Nil
  show ?case by auto
next
  case (Cons c cs)
  have pre: "(take (length needle) (c # cs) = needle) = (\<exists>b. c # cs = needle @ b)"
  proof
    assume "take (length needle) (c # cs) = needle"
    then have "c # cs = needle @ drop (length needle) (c # cs)"
      by (metis append_take_drop_id)
    then show "\<exists>b. c # cs = needle @ b" ..
  next
    assume "\<exists>b. c # cs = needle @ b"
    then show "take (length needle) (c # cs) = needle" by auto
  qed
  have "(\<exists>a b. c # cs = a @ needle @ b) =
        ((\<exists>b. c # cs = needle @ b) \<or> (\<exists>a b. cs = a @ needle @ b))"
    by (auto simp: Cons_eq_append_conv)
  then show ?case
    using Cons.IH pre by simp
qed

lemma fold_split_grads:
  "fold (\<lambda>(grad, param) (fact_grads, adam_grads).
           if py_in ''embed'' (op_name param)
           then (fact_grads, adam_grads @ [(grad, param)])
           else (fact_grads @ [(grad, param)], adam_grads)) gps (F, A) =
   (F @ filter (\<lambda>(g, p). \<not> py_in ''embed'' (op_name p)) gps,
    A @ filter (\<lambda>(g, p). py_in ''embed'' (op_name p)) gps)"
  by (induction gps arbitrary: F A) auto

lemma split_grads_filter:
  "split_grads gps =
   (filter (\<lambda>(g, p). \<not> py_in ''embed'' (op_name p)) gps,
    filter (\<lambda>(g, p). py_in ''embed'' (op_name p)) gps)"
  by (simp add: split_grads_def fold_split_grads)

lemma conv1d_vars:
  "\<exists>y. conv1d x sc nf relu vs =
     (y, vs @ [(sc @ ''/w'', [last (shape x), nf]), (sc @ ''/b'', [nf])])"
  by (simp add: conv1d_def get_variable_def Let_def)

lemma layernorm_vars:
  "\<exists>y. layernorm x sc eps relu vs =
     (y, vs @ [(sc @ ''/gain'', [last (shape x)]), (sc @ ''/bias'', [last (shape x)])])"
  by (simp add: layernorm_def get_variable_def Let_def)

lemma mlp_vars:
  "\<exists>y ws. mlp x sc ratio vs = (y, vs @ ws) \<and> length ws = 4 \<and>
     (\<forall>v\<in>set ws. prefix sc (fst v))"
proof -
  obtain hidden ws1 where h: "conv1d x (sc @ ''/hidden'') (last (shape x) * ratio) True vs =
      (hidden, vs @ ws1)"
    and ws1: "ws1 = [(sc @ ''/hidden'' @ ''/w'', [last (shape x), last (shape x) * ratio]),
      (sc @ ''/hidden'' @ ''/b'', [last (shape x) * ratio])]"
    using conv1d_vars [of x "sc @ ''/hidden''" "last (shape x) * ratio" True vs] by auto
  obtain residual ws2 where r: "conv1d hidden (sc @ ''/residual'') (last (shape x)) False (vs @ ws1) =
      (residual, vs @ ws1 @ ws2)"
    and ws2: "ws2 = [(sc @ ''/residual'' @ ''/w'', [last (shape hidden), last (shape x)]),
      (sc @ ''/residual'' @ ''/b'', [last (shape x)])]"
    using conv1d_vars [of hidden "sc @ ''/residual''" "last (shape x)" False "vs @ ws1"] by auto
  have "mlp x sc ratio vs = (Add x residual, vs @ (ws1 @ ws2))"
    by (simp add: mlp_def Let_def h r)
  moreover have "length (ws1 @ ws2) = 4" and "\<forall>v\<in>set (ws1 @ ws2). prefix sc (fst v)"
    by (simp_all add: ws1 ws2 prefix_def)
  ultimately show ?thesis
    by blast
qed

lemma ops_nonneg:
  "0 \<le> n_timesteps \<Longrightarrow> \<exists>b. get_blocksparse_attention_ops n_timesteps n_heads = Inr b"
  by (simp add: get_blocksparse_attention_ops_def Let_def blocksize_def pos_imp_zdiv_nonneg_iff)

lemma attention_vars:
  assumes "0 \<le> n_timesteps" and "0 < n_head"
  shows "\<exists>y ws. attention x sc n_head n_timesteps vs = Inr (y, vs @ ws) \<and> length ws = 8 \<and>
    (\<forall>v\<in>set ws. prefix sc (fst v))"
proof -
  obtain b where b: "get_blocksparse_attention_ops n_timesteps n_head = Inr b"
    using ops_nonneg [OF assms(1)] by blast
  define n where "n = last (shape x)"
  obtain q ws1 where q: "conv1d x (sc @ ''/q'') n False vs = (q, vs @ ws1)"
    and ws1: "ws1 = [(sc @ ''/q'' @ ''/w'', [last (shape x), n]), (sc @ ''/q'' @ ''/b'', [n])]"
    using conv1d_vars [of x "sc @ ''/q''" n False vs] by auto
  obtain k ws2 where k: "conv1d x (sc @ ''/k'') n False (vs @ ws1) = (k, vs @ ws1 @ ws2)"
    and ws2: "ws2 = [(sc @ ''/k'' @ ''/w'', [last (shape x), n]), (sc @ ''/k'' @ ''/b'', [n])]"
    using conv1d_vars [of x "sc @ ''/k''" n False "vs @ ws1"] by auto
  obtain v ws3 where v: "conv1d x (sc @ ''/v'') n False (vs @ ws1 @ ws2) =
      (v, vs @ ws1 @ ws2 @ ws3)"
    and ws3: "ws3 = [(sc @ ''/v'' @ ''/w'', [last (shape x), n]), (sc @ ''/v'' @ ''/b'', [n])]"
    using conv1d_vars [of x "sc @ ''/v''" n False "vs @ ws1 @ ws2"] by auto
  define wv where "wv = WeightValueOp b
    (MaskedSoftmax b (QueryKeyOp b q k) (Rsqrt (Const (real n / real n_head)))) v"
  obtain r ws4 where r: "conv1d wv (sc @ ''/proj'') n False (vs @ ws1 @ ws2 @ ws3) =
      (r, vs @ ws1 @ ws2 @ ws3 @ ws4)"
    and ws4: "ws4 = [(sc @ ''/proj'' @ ''/w'', [last (shape wv), n]), (sc @ ''/proj'' @ ''/b'', [n])]"
    using conv1d_vars [of wv "sc @ ''/proj''" n False "vs @ ws1 @ ws2 @ ws3"] by auto
  have "attention x sc n_head n_timesteps vs = Inr (r, vs @ (ws1 @ ws2 @ ws3 @ ws4))"
    using assms(2)
    by (simp add: attention_def Let_def n_def [symmetric] q k v b wv_def [symmetric] r)
  moreover have "length (ws1 @ ws2 @ ws3 @ ws4) = 8"
    and "\<forall>v\<in>set (ws1 @ ws2 @ ws3 @ ws4). prefix sc (fst v)"
    by (simp_all add: ws1 ws2 ws3 ws4 prefix_def)
  ultimately show ?thesis
    by blast
qed

lemma transformer_block_vars:
  assumes "0 \<le> n_timesteps" and "0 < n_head"
  shows "\<exists>y ws. transformer_block x sc n_head n_timesteps vs = Inr (y, vs @ ws) \<and>
    length ws = 16 \<and> (\<forall>v\<in>set ws. prefix sc (fst v))"
proof -
  obtain a ws1 where a: "attention x (sc @ ''/attention'') n_head n_timesteps vs = Inr (a, vs @ ws1)"
    and l1: "length ws1 = 8" and p1': "\<forall>v\<in>set ws1. prefix (sc @ ''/attention'') (fst v)"
    using attention_vars [OF assms] by blast
  have p1: "\<forall>v\<in>set ws1. prefix sc (fst v)"
    using p1' by (auto dest: append_prefixD)
  obtain a' ws2 where n1: "layernorm (Add a x) (sc @ ''/norm_a'') (1 / 100000) False (vs @ ws1) =
      (a', vs @ ws1 @ ws2)"
    and ws2: "ws2 = [(sc @ ''/norm_a'' @ ''/gain'', [last (shape (Add a x))]),
      (sc @ ''/norm_a'' @ ''/bias'', [last (shape (Add a x))])]"
    using layernorm_vars [of "Add a x" "sc @ ''/norm_a''" "1 / 100000" False "vs @ ws1"] by auto
  obtain m ws3 where m: "mlp a' (sc @ ''/mlp'') 4 (vs @ ws1 @ ws2) = (m, vs @ ws1 @ ws2 @ ws3)"
    and l3: "length ws3 = 4" and p3': "\<forall>v\<in>set ws3. prefix (sc @ ''/mlp'') (fst v)"
    using mlp_vars [of a' "sc @ ''/mlp''" 4 "vs @ ws1 @ ws2"] by auto
  have p3: "\<forall>v\<in>set ws3. prefix sc (fst v)"
    using p3' by (auto dest: append_prefixD)
  obtain m' ws4 where n2: "layernorm (Add m a') (sc @ ''/norm_m'') (1 / 100000) False
      (vs @ ws1 @ ws2 @ ws3) = (m', vs @ ws1 @ ws2 @ ws3 @ ws4)"
    and ws4: "ws4 = [(sc @ ''/norm_m'' @ ''/gain'', [last (shape (Add m a'))]),
      (sc @ ''/norm_m'' @ ''/bias'', [last (shape (Add m a'))])]"
    using layernorm_vars [of "Add m a'" "sc @ ''/norm_m''" "1 / 100000" False
        "vs @ ws1 @ ws2 @ ws3"] by auto
  have "transformer_block x sc n_head n_timesteps vs = Inr (m', vs @ (ws1 @ ws2 @ ws3 @ ws4))"
    by (simp add: transformer_block_def a n1 m n2 del: shape.simps)
  moreover have "length (ws1 @ ws2 @ ws3 @ ws4) = 16"
    using l1 l3 by (simp add: ws2 ws4 del: shape.simps)
  moreover have "\<forall>v\<in>set (ws1 @ ws2 @ ws3 @ ws4). prefix sc (fst v)"
    using p1 p3 by (auto simp: ws2 ws4 prefix_def simp del: shape.simps)
  ultimately show ?thesis
    by blast
qed

lemma layers_vars:
  assumes "0 \<le> hps_n_timesteps hps" and "0 < hps_n_head hps"
  shows "\<exists>h' ws gg. layers hps ls h vs grad_groups = Inr (h', vs @ ws, gg) \<and>
    length ws = 16 * length ls \<and> (\<forall>v\<in>set ws. prefix ''model/layer_'' (fst v))"
proof (induction ls arbitrary: h vs grad_groups)
  case Nil
  show ?case by simp
next
  case (Cons l ls)
  define sc where "sc = ''model/'' @ ''layer_'' @ str_nat l"
  obtain y ws1 where b: "transformer_block h sc (hps_n_head hps) (hps_n_timesteps hps) vs =
      Inr (y, vs @ ws1)"
    and l1: "length ws1 = 16" and p1': "\<forall>v\<in>set ws1. prefix sc (fst v)"
    using transformer_block_vars [OF assms] by blast
  have "prefix ''model/layer_'' sc"
    by (simp add: sc_def prefix_def)
  then have p1: "\<forall>v\<in>set ws1. prefix ''model/layer_'' (fst v)"
    using p1' by (meson prefix_order.trans)
  obtain h' ws2 gg where r: "layers hps ls y (vs @ ws1) ((''layer_'' @ str_nat l) # grad_groups) =
      Inr (h', vs @ ws1 @ ws2, gg)"
    and l2: "length ws2 = 16 * length ls" and p2: "\<forall>v\<in>set ws2. prefix ''model/layer_'' (fst v)"
    using Cons.IH [of y "vs @ ws1" "(''layer_'' @ str_nat l) # grad_groups"] by auto
  have "layers hps (l # ls) h vs grad_groups = Inr (h', vs @ (ws1 @ ws2), gg)"
    using b r by (simp add: Let_def sc_def)
  moreover have "length (ws1 @ ws2) = 16 * length (l # ls)"
    using l1 l2 by simp
  moreover have "\<forall>v\<in>set (ws1 @ ws2). prefix ''model/layer_'' (fst v)"
    using p1 p2 by auto
  ultimately show ?case
    by blast
qed

lemma forward_result:
  assumes "0 \<le> hps_n_timesteps hps" and "0 < hps_n_head hps"
  shows "\<exists>h ws gg. forward hps xs =
      Inr \<lparr>fw_x_embed = FloatCast16 (Var ''model/embed/x'' [hps_n_vocab hps, hps_n_state hps]),
           fw_pos_embed = FloatCast16 (Var ''model/embed/pos''
             [1, nat (hps_n_timesteps hps), hps_n_state hps]),
           fw_embedded = Add
             (EmbeddingLookup
               (FloatCast16 (Var ''model/embed/x'' [hps_n_vocab hps, hps_n_state hps])) xs)
             (FloatCast16 (Var ''model/embed/pos''
               [1, nat (hps_n_timesteps hps), hps_n_state hps])),
           fw_h = reshape_rows h (hps_n_state hps),
           fw_logits = MatMul (reshape_rows h (hps_n_state hps))
             (FloatCast16 (Var ''model/embed/x'' [hps_n_vocab hps, hps_n_state hps])) True,
           fw_variables =
             [(''model/embed/x'', [hps_n_vocab hps, hps_n_state hps]),
              (''model/embed/pos'', [1, nat (hps_n_timesteps hps), hps_n_state hps])] @ ws,
           fw_grad_groups = gg\<rparr> \<and>
    length ws = 16 * hps_n_layer hps \<and> (\<forall>v\<in>set ws. prefix ''model/layer_'' (fst v))"
proof -
  define x_embed where
    "x_embed = FloatCast16 (Var ''model/embed/x'' [hps_n_vocab hps, hps_n_state hps])"
  define pos_embed where
    "pos_embed = FloatCast16 (Var ''model/embed/pos''
       [1, nat (hps_n_timesteps hps), hps_n_state hps])"
  define vs2 where
    "vs2 = [(''model/embed/x'', [hps_n_vocab hps, hps_n_state hps]),
            (''model/embed/pos'', [1, nat (hps_n_timesteps hps), hps_n_state hps])]"
  obtain h ws gg where l: "layers hps [0..<hps_n_layer hps]
      (Add (EmbeddingLookup x_embed xs) pos_embed) vs2 [''embed''] = Inr (h, vs2 @ ws, gg)"
    and len: "length ws = 16 * length [0..<hps_n_layer hps]"
    and pre: "\<forall>v\<in>set ws. prefix ''model/layer_'' (fst v)"
    using layers_vars [OF assms] by blast
  have "forward hps xs =
      Inr \<lparr>fw_x_embed = x_embed, fw_pos_embed = pos_embed,
           fw_embedded = Add (EmbeddingLookup x_embed xs) pos_embed,
           fw_h = reshape_rows h (hps_n_state hps),
           fw_logits = MatMul (reshape_rows h (hps_n_state hps)) x_embed True,
           fw_variables = vs2 @ ws, fw_grad_groups = gg\<rparr>"
    using assms(1) l
    by (simp add: forward_def get_variable_def fp16_def Let_def x_embed_def pos_embed_def vs2_def)
  then show ?thesis
    using len pre unfolding x_embed_def pos_embed_def vs2_def by auto
qed

text \<open>
  C10. The input embedding and the output projection share one parameter: the logits
  are \<open>h\<close> multiplied with the transpose of the very \<open>x_embed\<close> that
  \<^verbatim>\<open>embedding_lookup\<close> uses for the inputs, and the model creates no other variable
  outside the layers than the two embeddings, so no separate output projection exists.
\<close>

theorem weight_tying:
  assumes "0 \<le> hps_n_timesteps hps" and "0 < hps_n_head hps"
  shows "\<exists>fw ws. forward hps xs = Inr fw \<and>
    fw_x_embed fw = FloatCast16 (Var ''model/embed/x'' [hps_n_vocab hps, hps_n_state hps]) \<and>
    fw_embedded fw = Add (EmbeddingLookup (fw_x_embed fw) xs) (fw_pos_embed fw) \<and>
    fw_logits fw = MatMul (fw_h fw) (fw_x_embed fw) True \<and>
    fw_variables fw =
      [(''model/embed/x'', [hps_n_vocab hps, hps_n_state hps]),
       (''model/embed/pos'', [1, nat (hps_n_timesteps hps), hps_n_state hps])] @ ws \<and>
    length ws = 16 * hps_n_layer hps \<and>
    (\<forall>v\<in>set ws. prefix ''model/layer_'' (fst v))"
proof -
  from forward_result [OF assms, of xs] obtain h ws gg fw where
    "forward hps xs = Inr fw" and
    "fw = \<lparr>fw_x_embed = FloatCast16 (Var ''model/embed/x'' [hps_n_vocab hps, hps_n_state hps]),
           fw_pos_embed = FloatCast16 (Var ''model/embed/pos''
             [1, nat (hps_n_timesteps hps), hps_n_state hps]),
           fw_embedded = Add
             (EmbeddingLookup
               (FloatCast16 (Var ''model/embed/x'' [hps_n_vocab hps, hps_n_state hps])) xs)
             (FloatCast16 (Var ''model/embed/pos''
               [1, nat (hps_n_timesteps hps), hps_n_state hps])),
           fw_h = reshape_rows h (hps_n_state hps),
           fw_logits = MatMul (reshape_rows h (hps_n_state hps))
             (FloatCast16 (Var ''model/embed/x'' [hps_n_vocab hps, hps_n_state hps])) True,
           fw_variables =
             [(''model/embed/x'', [hps_n_vocab hps, hps_n_state hps]),
              (''model/embed/pos'', [1, nat (hps_n_timesteps hps), hps_n_state hps])] @ ws,
           fw_grad_groups = gg\<rparr>" and
    "length ws = 16 * hps_n_layer hps" and "\<forall>v\<in>set ws. prefix ''model/layer_'' (fst v)"
    by blast
  then show ?thesis
    by (intro exI [of _ fw] exI [of _ ws]) simp
qed

lemma logged_grads_length:
  "length (logged_grads hps mpi_rank (reduced_grads mpi_size gg loss params cost_scale) params) =
   length params"
  by (simp add: logged_grads_def reduced_grads_def Let_def)

lemma model_result:
  assumes "hps_warmup_iters hps \<noteq> 0" and "forward hps xs = Inr fw"
  shows "\<exists>learning_rate update_op global_norm norm_scale.
    model hps mpi_size mpi_rank xs ys cost_scale grad_scale =
      Inr \<lparr>out_loss =
             (if mpi_size > 1
              then Mul (AllReduce (ReduceMean (SoftmaxCrossEntropy (fw_logits fw) ys)))
                       (Const (1 / real_of_int mpi_size))
              else ReduceMean (SoftmaxCrossEntropy (fw_logits fw) ys)),
           out_train_op = Group
             [Group
               [ApplyGradients Adafactor learning_rate norm_scale grad_scale
                 (fst (split_grads (zip
                   (logged_grads hps mpi_rank
                     (reduced_grads mpi_size (fw_grad_groups fw)
                       (ReduceMean (SoftmaxCrossEntropy (fw_logits fw) ys))
                       (trainable_variables (fw_variables fw)) cost_scale)
                     (trainable_variables (fw_variables fw)))
                   (trainable_variables (fw_variables fw))))),
                ApplyGradients Adam learning_rate norm_scale grad_scale
                 (snd (split_grads (zip
                   (logged_grads hps mpi_rank
                     (reduced_grads mpi_size (fw_grad_groups fw)
                       (ReduceMean (SoftmaxCrossEntropy (fw_logits fw) ys))
                       (trainable_variables (fw_variables fw)) cost_scale)
                     (trainable_variables (fw_variables fw)))
                   (trainable_variables (fw_variables fw)))))],
              update_op],
           out_global_norm = global_norm, out_norm_scale = norm_scale\<rparr>"
  using assms by (simp add: model_def Let_def split_beta)


lemma model_succeeds:
  assumes "hps_warmup_iters hps \<noteq> 0" and "0 \<le> hps_n_timesteps hps" and "0 < hps_n_head hps"
  obtains fw learning_rate update_op global_norm norm_scale where
    "forward hps xs = Inr fw"
    "model hps mpi_size mpi_rank xs ys cost_scale grad_scale =
      Inr \<lparr>out_loss =
             (if mpi_size > 1
              then Mul (AllReduce (ReduceMean (SoftmaxCrossEntropy (fw_logits fw) ys)))
                       (Const (1 / real_of_int mpi_size))
              else ReduceMean (SoftmaxCrossEntropy (fw_logits fw) ys)),
           out_train_op = Group
             [Group
               [ApplyGradients Adafactor learning_rate norm_scale grad_scale
                 (fst (split_grads (zip
                   (logged_grads hps mpi_rank
                     (reduced_grads mpi_size (fw_grad_groups fw)
                       (ReduceMean (SoftmaxCrossEntropy (fw_logits fw) ys))
                       (trainable_variables (fw_variables fw)) cost_scale)
                     (trainable_variables (fw_variables fw)))
                   (trainable_variables (fw_variables fw))))),
                ApplyGradients Adam learning_rate norm_scale grad_scale
                 (snd (split_grads (zip
                   (logged_grads hps mpi_rank
                     (reduced_grads mpi_size (fw_grad_groups fw)
                       (ReduceMean (SoftmaxCrossEntropy (fw_logits fw) ys))
                       (trainable_variables (fw_variables fw)) cost_scale)
                     (trainable_variables (fw_variables fw)))
                   (trainable_variables (fw_variables fw)))))],
              update_op],
           out_global_norm = global_norm, out_norm_scale = norm_scale\<rparr>"
proof -
  obtain fw where fw: "forward hps xs = Inr fw"
    using forward_result [OF assms(2,3), of xs] by blast
  from model_result [OF assms(1) fw, of mpi_size mpi_rank ys cost_scale grad_scale]
  show ?thesis
    using fw that by blast
qed

text \<open>
  C5. The (gradient, parameter) pairs are split into two disjoint lists that together
  cover every parameter: a pair goes to Adam iff \<^verbatim>\<open>embed\<close> occurs in the parameter's op
  name, and to Adafactor otherwise; the training op is the group of both optimizers'
  \<^verbatim>\<open>apply_gradients\<close> ops (grouped, in what \<^verbatim>\<open>model\<close> returns, with the update of the
  global step that depends on it).
\<close>

theorem optimizer_partition:
  assumes "hps_warmup_iters hps \<noteq> 0" and "0 \<le> hps_n_timesteps hps" and "0 < hps_n_head hps"
  shows "\<exists>out fw grads fact_grads adam_grads learning_rate update_op.
    model hps mpi_size mpi_rank xs ys cost_scale grad_scale = Inr out \<and>
    forward hps xs = Inr fw \<and>
    map snd (zip grads (trainable_variables (fw_variables fw))) =
      trainable_variables (fw_variables fw) \<and>
    out_train_op out = Group
      [Group [ApplyGradients Adafactor learning_rate (out_norm_scale out) grad_scale fact_grads,
              ApplyGradients Adam learning_rate (out_norm_scale out) grad_scale adam_grads],
       update_op] \<and>
    adam_grads = filter (\<lambda>(g, p). \<exists>a b. op_name p = a @ ''embed'' @ b)
      (zip grads (trainable_variables (fw_variables fw))) \<and>
    fact_grads = filter (\<lambda>(g, p). \<nexists>a b. op_name p = a @ ''embed'' @ b)
      (zip grads (trainable_variables (fw_variables fw))) \<and>
    set adam_grads \<inter> set fact_grads = {} \<and>
    set adam_grads \<union> set fact_grads = set (zip grads (trainable_variables (fw_variables fw)))"
proof -
  obtain fw learning_rate update_op global_norm norm_scale where
    fw: "forward hps xs = Inr fw" and
    m: "model hps mpi_size mpi_rank xs ys cost_scale grad_scale =
      Inr \<lparr>out_loss =
             (if mpi_size > 1
              then Mul (AllReduce (ReduceMean (SoftmaxCrossEntropy (fw_logits fw) ys)))
                       (Const (1 / real_of_int mpi_size))
              else ReduceMean (SoftmaxCrossEntropy (fw_logits fw) ys)),
           out_train_op = Group
             [Group
               [ApplyGradients Adafactor learning_rate norm_scale grad_scale
                 (fst (split_grads (zip
                   (logged_grads hps mpi_rank
                     (reduced_grads mpi_size (fw_grad_groups fw)
                       (ReduceMean (SoftmaxCrossEntropy (fw_logits fw) ys))
                       (trainable_variables (fw_variables fw)) cost_scale)
                     (trainable_variables (fw_variables fw)))
                   (trainable_variables (fw_variables fw))))),
                ApplyGradients Adam learning_rate norm_scale grad_scale
                 (snd (split_grads (zip
                   (logged_grads hps mpi_rank
                     (reduced_grads mpi_size (fw_grad_groups fw)
                       (ReduceMean (SoftmaxCrossEntropy (fw_logits fw) ys))
                       (trainable_variables (fw_variables fw)) cost_scale)
                     (trainable_variables (fw_variables fw)))
                   (trainable_variables (fw_variables fw)))))],
              update_op],
           out_global_norm = global_norm, out_norm_scale = norm_scale\<rparr>"
    using model_succeeds [OF assms] by metis
  let ?params = "trainable_variables (fw_variables fw)"
  let ?grads = "logged_grads hps mpi_rank
    (reduced_grads mpi_size (fw_grad_groups fw)
      (ReduceMean (SoftmaxCrossEntropy (fw_logits fw) ys)) ?params cost_scale) ?params"
  let ?P = "\<lambda>(g :: tensor, p). \<exists>a b. op_name p = a @ ''embed'' @ b"
  let ?N = "\<lambda>(g :: tensor, p). \<nexists>a b. op_name p = a @ ''embed'' @ b"
  let ?adam = "filter ?P (zip ?grads ?params)"
  let ?fact = "filter ?N (zip ?grads ?params)"
  let ?out = "\<lparr>out_loss =
             (if mpi_size > 1
              then Mul (AllReduce (ReduceMean (SoftmaxCrossEntropy (fw_logits fw) ys)))
                       (Const (1 / real_of_int mpi_size))
              else ReduceMean (SoftmaxCrossEntropy (fw_logits fw) ys)),
           out_train_op = Group
             [Group
               [ApplyGradients Adafactor learning_rate norm_scale grad_scale
                 (fst (split_grads (zip ?grads ?params))),
                ApplyGradients Adam learning_rate norm_scale grad_scale
                 (snd (split_grads (zip ?grads ?params)))],
              update_op],
           out_global_norm = global_norm, out_norm_scale = norm_scale\<rparr>"
  have in_iff: "(\<lambda>(g :: tensor, p). py_in ''embed'' (op_name p)) = ?P"
    by (simp add: py_in_iff)
  have not_iff: "(\<lambda>(g :: tensor, p). \<not> py_in ''embed'' (op_name p)) = ?N"
    by (simp add: py_in_iff)
  have split: "split_grads (zip ?grads ?params) = (?fact, ?adam)"
    unfolding split_grads_filter in_iff not_iff ..
  have 1: "model hps mpi_size mpi_rank xs ys cost_scale grad_scale = Inr ?out"
    by (rule m)
  have 2: "map snd (zip ?grads ?params) = ?params"
    by (simp add: logged_grads_length)
  have 3: "out_train_op ?out = Group
      [Group [ApplyGradients Adafactor learning_rate (out_norm_scale ?out) grad_scale ?fact,
              ApplyGradients Adam learning_rate (out_norm_scale ?out) grad_scale ?adam],
       update_op]"
    by (simp add: split)
  have 4: "set ?adam \<inter> set ?fact = {}"
    by auto
  have 5: "set ?adam \<union> set ?fact = set (zip ?grads ?params)"
    by auto
  show ?thesis
    by (intro exI conjI) (rule 1 fw 2 3 refl 4 5)+
qed


text \<open>
  C8. With more than one process the loss returned by \<^verbatim>\<open>model\<close> is the all-reduced
  loss times \<open>1 / mpi_size\<close>, the arithmetic mean of the processes' losses when
  all-reduce is summation; with one process it is the local loss, with no all-reduce.
\<close>

theorem loss_is_mean:
  assumes "hps_warmup_iters hps \<noteq> 0" and "0 \<le> hps_n_timesteps hps" and "0 < hps_n_head hps"
  shows "\<exists>out fw. model hps mpi_size mpi_rank xs ys cost_scale grad_scale = Inr out \<and>
    forward hps xs = Inr fw \<and>
    (1 < mpi_size \<longrightarrow>
       out_loss out = Mul (AllReduce (ReduceMean (SoftmaxCrossEntropy (fw_logits fw) ys)))
                          (Const (1 / real_of_int mpi_size)) \<and>
       (\<forall>local r. value_of local (nat mpi_size) r (out_loss out) =
          (\<Sum>r' \<leftarrow> [0..<nat mpi_size].
             local r' (ReduceMean (SoftmaxCrossEntropy (fw_logits fw) ys))) /
          real_of_int mpi_size)) \<and>
    (mpi_size = 1 \<longrightarrow> out_loss out = ReduceMean (SoftmaxCrossEntropy (fw_logits fw) ys))"
proof -
  obtain fw learning_rate update_op global_norm norm_scale where
    fw: "forward hps xs = Inr fw" and
    m: "model hps mpi_size mpi_rank xs ys cost_scale grad_scale =
      Inr \<lparr>out_loss =
             (if mpi_size > 1
              then Mul (AllReduce (ReduceMean (SoftmaxCrossEntropy (fw_logits fw) ys)))
                       (Const (1 / real_of_int mpi_size))
              else ReduceMean (SoftmaxCrossEntropy (fw_logits fw) ys)),
           out_train_op = Group
             [Group
               [ApplyGradients Adafactor learning_rate norm_scale grad_scale
                 (fst (split_grads (zip
                   (logged_grads hps mpi_rank
                     (reduced_grads mpi_size (fw_grad_groups fw)
                       (ReduceMean (SoftmaxCrossEntropy (fw_logits fw) ys))
                       (trainable_variables (fw_variables fw)) cost_scale)
                     (trainable_variables (fw_variables fw)))
                   (trainable_variables (fw_variables fw))))),
                ApplyGradients Adam learning_rate norm_scale grad_scale
                 (snd (split_grads (zip
                   (logged_grads hps mpi_rank
                     (reduced_grads mpi_size (fw_grad_groups fw)
                       (ReduceMean (SoftmaxCrossEntropy (fw_logits fw) ys))
                       (trainable_variables (fw_variables fw)) cost_scale)
                     (trainable_variables (fw_variables fw)))
                   (trainable_variables (fw_variables fw)))))],
              update_op],
           out_global_norm = global_norm, out_norm_scale = norm_scale\<rparr>"
    using model_succeeds [OF assms] by metis
  show ?thesis
    unfolding m fw by (intro exI conjI; (rule refl)?) simp_all
qed

theorem loss_is_mean_witness:
  "hps_warmup_iters demo_hps \<noteq> 0 \<and> 0 \<le> hps_n_timesteps demo_hps \<and> 0 < hps_n_head demo_hps \<and>
   (\<exists>out fw. model demo_hps 4 0 demo_x demo_y (Placeholder ''cost_scale'' []) (Const 1) = Inr out \<and>
      forward demo_hps demo_x = Inr fw \<and>
      out_loss out = Mul (AllReduce (ReduceMean (SoftmaxCrossEntropy (fw_logits fw) demo_y)))
                         (Const (1 / 4)) \<and>
      value_of (\<lambda>r t. real r) 4 0 (out_loss out) = 6 / 4)"
proof -
  have h: "hps_warmup_iters demo_hps \<noteq> 0" "0 \<le> hps_n_timesteps demo_hps"
    "0 < hps_n_head demo_hps"
    by (simp_all add: demo_hps_def)
  from loss_is_mean [OF h, of 4 0 demo_x demo_y "Placeholder ''cost_scale'' []" "Const 1"]
  obtain out fw where o: "model demo_hps 4 0 demo_x demo_y (Placeholder ''cost_scale'' []) (Const 1) = Inr out"
    "forward demo_hps demo_x = Inr fw"
    "out_loss out = Mul (AllReduce (ReduceMean (SoftmaxCrossEntropy (fw_logits fw) demo_y)))
                          (Const (1 / 4))"
    "\<And>local r. value_of local 4 r (out_loss out) =
          (\<Sum>r' \<leftarrow> [0..<4].
             local r' (ReduceMean (SoftmaxCrossEntropy (fw_logits fw) demo_y))) / 4"
    by auto
  have "[0..<4] = [0, 1, 2, 3]"
    by (simp add: upt_rec)
  then have "value_of (\<lambda>r t. real r) 4 0 (out_loss out) = 6 / 4"
    using o(4) [of "\<lambda>r t. real r" 0] by simp
  then show ?thesis
    using h o(1,2,3) by blast
qed

theorem optimizer_partition_witness:
  "hps_warmup_iters demo_hps \<noteq> 0 \<and> 0 \<le> hps_n_timesteps demo_hps \<and> 0 < hps_n_head demo_hps \<and>
   (\<exists>out fact_grads adam_grads learning_rate update_op.
      model demo_hps 1 0 demo_x demo_y (Placeholder ''cost_scale'' []) (Const 1) = Inr out \<and>
      out_train_op out = Group
        [Group [ApplyGradients Adafactor learning_rate (out_norm_scale out) (Const 1) fact_grads,
                ApplyGradients Adam learning_rate (out_norm_scale out) (Const 1) adam_grads],
         update_op] \<and>
      set adam_grads \<inter> set fact_grads = {})"
proof -
  have h: "hps_warmup_iters demo_hps \<noteq> 0" "0 \<le> hps_n_timesteps demo_hps"
    "0 < hps_n_head demo_hps"
    by (simp_all add: demo_hps_def)
  from optimizer_partition [OF h, of 1 0 demo_x demo_y "Placeholder ''cost_scale'' []" "Const 1"]
  show ?thesis
    using h by blast
qed

theorem weight_tying_witness:
  "0 \<le> hps_n_timesteps demo_hps \<and> 0 < hps_n_head demo_hps \<and>
   (\<exists>fw ws. forward demo_hps demo_x = Inr fw \<and>
      fw_x_embed fw = FloatCast16 (Var ''model/embed/x'' [256, 8]) \<and>
      fw_embedded fw = Add (EmbeddingLookup (fw_x_embed fw) demo_x) (fw_pos_embed fw) \<and>
      fw_logits fw = MatMul (fw_h fw) (fw_x_embed fw) True \<and>
      fw_variables fw =
        [(''model/embed/x'', [256, 8]), (''model/embed/pos'', [1, 64, 8])] @ ws \<and>
      length ws = 32)"
proof -
  have h: "0 \<le> hps_n_timesteps demo_hps" "0 < hps_n_head demo_hps"
    by (simp_all add: demo_hps_def)
  from weight_tying [OF h, of demo_x]
  obtain fw ws where "forward demo_hps demo_x = Inr fw"
    "fw_x_embed fw = FloatCast16 (Var ''model/embed/x'' [256, 8])"
    "fw_embedded fw = Add (EmbeddingLookup (fw_x_embed fw) demo_x) (fw_pos_embed fw)"
    "fw_logits fw = MatMul (fw_h fw) (fw_x_embed fw) True"
    "fw_variables fw =
        [(''model/embed/x'', [256, 8]), (''model/embed/pos'', [1, 64, 8])] @ ws"
    "length ws = 32"
    by (auto simp: demo_hps_def)
  then show ?thesis
    using h by blast
qed

subsection \<open>Loss scaling\<close>

lemma small_le_max: "\<bar>k\<bar> \<le> 2 ^ 53 - 1 \<Longrightarrow> \<bar>k :: int\<bar> \<le> max_finite"
proof -
  assume "\<bar>k\<bar> \<le> 2 ^ 53 - 1"
  moreover have "(2 ^ 53 - 1 :: int) * 1 \<le> (2 ^ 53 - 1) * 2 ^ 2045"
    by (intro mult_left_mono) simp_all
  ultimately show ?thesis
    by (simp add: max_finite_def)
qed

lemma times_half_double: "is_double x \<Longrightarrow> is_double (times_half x)"
proof (cases x)
  case (Finite m)
  assume "is_double x"
  then obtain k j where m: "m = k * 2 ^ j" and k: "\<bar>k\<bar> < 2 ^ 53" and le: "\<bar>m\<bar> \<le> max_finite"
    by (auto simp: is_double_def Finite)
  show ?thesis
  proof (cases "even m")
    case True
    have "\<bar>m div 2\<bar> \<le> \<bar>m\<bar>"
      using True by (auto elim!: evenE simp: abs_mult)
    then have b: "\<bar>m div 2\<bar> \<le> max_finite"
      using le by linarith
    have "\<exists>k' j'. m div 2 = k' * 2 ^ j' \<and> \<bar>k'\<bar> < 2 ^ 53"
    proof (cases j)
      case 0
      then have "m = k" using m by simp
      moreover have "\<bar>k div 2\<bar> \<le> \<bar>k\<bar>"
        using True \<open>m = k\<close> by (auto elim!: evenE simp: abs_mult)
      ultimately have "m div 2 = (k div 2) * 2 ^ 0 \<and> \<bar>k div 2\<bar> < 2 ^ 53"
        using k by simp
      then show ?thesis by blast
    next
      case (Suc i)
      then have "m div 2 = k * 2 ^ i"
        using m by simp
      then show ?thesis using k by blast
    qed
    then show ?thesis
      using True b by (simp add: is_double_def Finite times_half_def)
  next
    case False
    then have "j = 0"
      using m by (cases j) auto
    then have mk: "\<bar>m\<bar> < 2 ^ 53"
      using m k by simp
    have "(2::int) ^ 53 = 9007199254740992"
      by simp
    then have r: "\<bar>m div 2\<bar> \<le> 2 ^ 53 - 1" "\<bar>m div 2 + 1\<bar> \<le> 2 ^ 53 - 1"
      using mk by linarith+
    have "\<bar>r\<bar> \<le> max_finite \<and> (\<exists>k' j'. r = k' * 2 ^ j' \<and> \<bar>k'\<bar> < 2 ^ 53)"
      if "\<bar>r\<bar> \<le> 2 ^ 53 - 1" for r :: int
    proof -
      have "r = r * 2 ^ 0 \<and> \<bar>r\<bar> < 2 ^ 53"
        using that by simp
      then show ?thesis
        using small_le_max [OF that] by blast
    qed
    then show ?thesis
      using False r by (simp add: is_double_def Finite times_half_def)
  qed
qed (simp_all add: is_double_def times_half_def)

lemma times_two_double: "is_double x \<Longrightarrow> is_double (times_two x)"
proof (cases x)
  case (Finite m)
  assume "is_double x"
  then obtain k j where m: "m = k * 2 ^ j" and k: "\<bar>k\<bar> < 2 ^ 53"
    by (auto simp: is_double_def Finite)
  have "2 * m = k * 2 ^ Suc j"
    using m by simp
  then have "\<exists>k' j'. 2 * m = k' * 2 ^ j' \<and> \<bar>k'\<bar> < 2 ^ 53"
    using k by blast
  then show ?thesis
    by (simp add: is_double_def Finite times_two_def)
qed (simp_all add: is_double_def times_two_def)










subsection \<open>The gradient scale\<close>

lemma zip_map_same: "zip (map f xs) xs = map (\<lambda>x. (f x, x)) xs"
  by (induction xs) simp_all

lemma graded_pair:
  assumes "(grad, param) \<in> set (zip (logged_grads hps mpi_rank
      (reduced_grads mpi_size groups l params c) params) params)"
  shows "grad = (if mpi_size > 1 then GroupAllReduce groups (Gradient (ScaleTensor l c) param)
                 else Gradient (ScaleTensor l c) param) \<or>
    grad = LogStats (if mpi_size > 1 then GroupAllReduce groups (Gradient (ScaleTensor l c) param)
                     else Gradient (ScaleTensor l c) param) (stats_name param)"
proof -
  define f where "f = (\<lambda>p. if mpi_size > 1 then GroupAllReduce groups (Gradient (ScaleTensor l c) p)
    else Gradient (ScaleTensor l c) p)"
  have red: "reduced_grads mpi_size groups l params c = map f params"
    by (simp add: reduced_grads_def f_def Let_def)
  show ?thesis
  proof (cases "hps_log_stats hps \<noteq> 0 \<and> mpi_rank = 0")
    case True
    then have "logged_grads hps mpi_rank (map f params) params =
        map (\<lambda>p. LogStats (f p) (stats_name p)) params"
      by (simp add: logged_grads_def zip_map_same comp_def)
    then have "grad = LogStats (f param) (stats_name param)"
      using assms by (auto simp: red zip_map_same)
    then show ?thesis
      by (simp add: f_def)
  next
    case False
    then have "logged_grads hps mpi_rank (map f params) params = map f params"
      by (auto simp: logged_grads_def)
    then have "grad = f param"
      using assms by (auto simp: red zip_map_same)
    then show ?thesis
      by (simp add: f_def)
  qed
qed

lemma applied_gradient_mean:
  assumes S: "1 \<le> mpi_size" and s: "feed cost_scale_placeholder = s" "s \<noteq> 0"
    and r: "r < nat mpi_size"
    and grad: "grad = base \<or> grad = LogStats base name"
    and base: "base = (if mpi_size > 1
        then GroupAllReduce groups (Gradient (ScaleTensor l cost_scale_placeholder) param)
        else Gradient (ScaleTensor l cost_scale_placeholder) param)"
  shows "applied_gradient feed g (nat mpi_size) r grad (main_grad_scale mpi_size) =
    (\<Sum>r' \<leftarrow> [0..<nat mpi_size]. g r' l param) / real_of_int mpi_size"
proof -
  have cs: "scalar_value feed cost_scale_placeholder = s"
    using s(1) by (simp add: cost_scale_placeholder_def)
  have gs: "scalar_value feed (main_grad_scale mpi_size) = 1 / (s * real_of_int mpi_size)"
    by (simp add: main_grad_scale_def cs)
  have same: "gradient_value feed g (nat mpi_size) r grad =
      gradient_value feed g (nat mpi_size) r base"
    using grad by auto
  have "gradient_value feed g (nat mpi_size) r base =
      s * (\<Sum>r' \<leftarrow> [0..<nat mpi_size]. g r' l param)"
  proof (cases "mpi_size > 1")
    case True
    then show ?thesis
      by (simp add: base cs sum_list_const_mult)
  next
    case False
    then have "mpi_size = 1"
      using S by simp
    then show ?thesis
      using r by (simp add: base cs)
  qed
  then show ?thesis
    using S s(2) by (simp add: applied_gradient_def same gs)
qed

text \<open>
  C4. The gradient scale inverts the cost scale and the process count. For
  \<open>mpi_size \<ge> 1\<close> and a nonzero value \<open>s\<close> fed for the placeholder \<open>cost_scale\<close>, the graph
  that \<^verbatim>\<open>__main__\<close> builds has these properties. The \<open>grad_scale\<close> tensor
  \<open>1.0 / (cost_scale * mpi_size)\<close> is the one both optimizers are constructed with, and
  its value is \<open>1 / (s * mpi_size)\<close> in exact arithmetic. Every gradient handed to an
  optimizer is \<^verbatim>\<open>tf.gradients\<close> of the loss scaled by \<open>cost_scale\<close>, all-reduced when
  \<open>mpi_size > 1\<close> and possibly passed through \<^verbatim>\<open>log_stats\<close>; between them the two
  optimizers receive every trainable variable. So the gradient an optimizer applies,
  scaled by \<open>s\<close>, summed over the processes and multiplied by \<open>grad_scale\<close>, is the mean
  over the processes of the gradients of the unscaled loss: a net scaling of exactly 1.
\<close>

theorem grad_scale_inverts:
  assumes "hps_warmup_iters hps \<noteq> 0" and "0 \<le> hps_n_timesteps hps" and "0 < hps_n_head hps"
    and "1 \<le> mpi_size" and "feed cost_scale_placeholder = s" and "s \<noteq> 0"
  shows "\<exists>out fw learning_rate update_op fact_grads adam_grads.
    main_model hps mpi_size mpi_rank = Inr out \<and>
    forward hps (main_X hps) = Inr fw \<and>
    out_train_op out = Group
      [Group [ApplyGradients Adafactor learning_rate (out_norm_scale out)
                (main_grad_scale mpi_size) fact_grads,
              ApplyGradients Adam learning_rate (out_norm_scale out)
                (main_grad_scale mpi_size) adam_grads],
       update_op] \<and>
    mset (map snd fact_grads) + mset (map snd adam_grads) =
      mset (trainable_variables (fw_variables fw)) \<and>
    scalar_value feed (main_grad_scale mpi_size) = 1 / (s * real_of_int mpi_size) \<and>
    s * real_of_int mpi_size * scalar_value feed (main_grad_scale mpi_size) = 1 \<and>
    (\<forall>(grad, param)\<in>set fact_grads \<union> set adam_grads.
       (grad =
          (if mpi_size > 1
           then GroupAllReduce (fw_grad_groups fw)
             (Gradient (ScaleTensor (ReduceMean (SoftmaxCrossEntropy (fw_logits fw) (main_Y hps)))
                cost_scale_placeholder) param)
           else Gradient (ScaleTensor (ReduceMean (SoftmaxCrossEntropy (fw_logits fw) (main_Y hps)))
                cost_scale_placeholder) param) \<or>
        grad = LogStats
          (if mpi_size > 1
           then GroupAllReduce (fw_grad_groups fw)
             (Gradient (ScaleTensor (ReduceMean (SoftmaxCrossEntropy (fw_logits fw) (main_Y hps)))
                cost_scale_placeholder) param)
           else Gradient (ScaleTensor (ReduceMean (SoftmaxCrossEntropy (fw_logits fw) (main_Y hps)))
                cost_scale_placeholder) param)
          (stats_name param)) \<and>
       (\<forall>g r. r < nat mpi_size \<longrightarrow>
          applied_gradient feed g (nat mpi_size) r grad (main_grad_scale mpi_size) =
            (\<Sum>r' \<leftarrow> [0..<nat mpi_size].
               g r' (ReduceMean (SoftmaxCrossEntropy (fw_logits fw) (main_Y hps))) param) /
            real_of_int mpi_size))"
proof -
  let ?X = "main_X hps" and ?Y = "main_Y hps" and ?c = cost_scale_placeholder
    and ?gs = "main_grad_scale mpi_size"
  obtain fw learning_rate update_op global_norm norm_scale where
    fw: "forward hps ?X = Inr fw" and
    m: "model hps mpi_size mpi_rank ?X ?Y ?c ?gs =
      Inr \<lparr>out_loss =
             (if mpi_size > 1
              then Mul (AllReduce (ReduceMean (SoftmaxCrossEntropy (fw_logits fw) ?Y)))
                       (Const (1 / real_of_int mpi_size))
              else ReduceMean (SoftmaxCrossEntropy (fw_logits fw) ?Y)),
           out_train_op = Group
             [Group
               [ApplyGradients Adafactor learning_rate norm_scale ?gs
                 (fst (split_grads (zip
                   (logged_grads hps mpi_rank
                     (reduced_grads mpi_size (fw_grad_groups fw)
                       (ReduceMean (SoftmaxCrossEntropy (fw_logits fw) ?Y))
                       (trainable_variables (fw_variables fw)) ?c)
                     (trainable_variables (fw_variables fw)))
                   (trainable_variables (fw_variables fw))))),
                ApplyGradients Adam learning_rate norm_scale ?gs
                 (snd (split_grads (zip
                   (logged_grads hps mpi_rank
                     (reduced_grads mpi_size (fw_grad_groups fw)
                       (ReduceMean (SoftmaxCrossEntropy (fw_logits fw) ?Y))
                       (trainable_variables (fw_variables fw)) ?c)
                     (trainable_variables (fw_variables fw)))
                   (trainable_variables (fw_variables fw)))))],
              update_op],
           out_global_norm = global_norm, out_norm_scale = norm_scale\<rparr>"
    using model_succeeds [OF assms(1,2,3), of ?X mpi_size mpi_rank ?Y ?c ?gs] by metis
  let ?l = "ReduceMean (SoftmaxCrossEntropy (fw_logits fw) ?Y)"
  let ?params = "trainable_variables (fw_variables fw)"
  let ?grads = "logged_grads hps mpi_rank
    (reduced_grads mpi_size (fw_grad_groups fw) ?l ?params ?c) ?params"
  let ?fact = "fst (split_grads (zip ?grads ?params))"
  let ?adam = "snd (split_grads (zip ?grads ?params))"
  let ?out = "\<lparr>out_loss =
             (if mpi_size > 1
              then Mul (AllReduce ?l) (Const (1 / real_of_int mpi_size))
              else ?l),
           out_train_op = Group
             [Group [ApplyGradients Adafactor learning_rate norm_scale ?gs ?fact,
                     ApplyGradients Adam learning_rate norm_scale ?gs ?adam],
              update_op],
           out_global_norm = global_norm, out_norm_scale = norm_scale\<rparr>"
  have 1: "main_model hps mpi_size mpi_rank = Inr ?out"
    unfolding main_model_def by (rule m)
  have 3: "out_train_op ?out = Group
      [Group [ApplyGradients Adafactor learning_rate (out_norm_scale ?out) ?gs ?fact,
              ApplyGradients Adam learning_rate (out_norm_scale ?out) ?gs ?adam],
       update_op]"
    by simp
  have sets: "set ?fact \<union> set ?adam = set (zip ?grads ?params)"
    by (auto simp: split_grads_filter)
  have "mset ?fact + mset ?adam = mset (zip ?grads ?params)"
    by (simp add: split_grads_filter add.commute)
  then have "mset (map snd ?fact) + mset (map snd ?adam) = mset (map snd (zip ?grads ?params))"
    by (metis mset_map image_mset_union)
  then have 4: "mset (map snd ?fact) + mset (map snd ?adam) = mset ?params"
    by (simp add: logged_grads_length)
  have cs: "scalar_value feed ?c = s"
    using assms(5) by (simp add: cost_scale_placeholder_def)
  have 5: "scalar_value feed ?gs = 1 / (s * real_of_int mpi_size)"
    by (simp add: main_grad_scale_def cs)
  have 6: "s * real_of_int mpi_size * scalar_value feed ?gs = 1"
    using assms(4,6) by (simp add: 5)
  have 7: "\<forall>(grad, param)\<in>set ?fact \<union> set ?adam.
       (grad =
          (if mpi_size > 1
           then GroupAllReduce (fw_grad_groups fw) (Gradient (ScaleTensor ?l ?c) param)
           else Gradient (ScaleTensor ?l ?c) param) \<or>
        grad = LogStats
          (if mpi_size > 1
           then GroupAllReduce (fw_grad_groups fw) (Gradient (ScaleTensor ?l ?c) param)
           else Gradient (ScaleTensor ?l ?c) param)
          (stats_name param)) \<and>
       (\<forall>g r. r < nat mpi_size \<longrightarrow>
          applied_gradient feed g (nat mpi_size) r grad ?gs =
            (\<Sum>r' \<leftarrow> [0..<nat mpi_size]. g r' ?l param) / real_of_int mpi_size)"
  proof (intro ballI)
    fix x
    assume x: "x \<in> set ?fact \<union> set ?adam"
    obtain grad param where xp: "x = (grad, param)"
      by (cases x)
    have "(grad, param) \<in> set (zip ?grads ?params)"
      using x sets by (simp only: xp)
    then have gp: "grad =
        (if mpi_size > 1 then GroupAllReduce (fw_grad_groups fw) (Gradient (ScaleTensor ?l ?c) param)
         else Gradient (ScaleTensor ?l ?c) param) \<or>
      grad = LogStats
        (if mpi_size > 1 then GroupAllReduce (fw_grad_groups fw) (Gradient (ScaleTensor ?l ?c) param)
         else Gradient (ScaleTensor ?l ?c) param) (stats_name param)"
      by (rule graded_pair)
    have "\<forall>g r. r < nat mpi_size \<longrightarrow>
          applied_gradient feed g (nat mpi_size) r grad ?gs =
            (\<Sum>r' \<leftarrow> [0..<nat mpi_size]. g r' ?l param) / real_of_int mpi_size"
    proof (intro allI impI)
      fix g r
      assume r: "r < nat mpi_size"
      show "applied_gradient feed g (nat mpi_size) r grad ?gs =
         (\<Sum>r' \<leftarrow> [0..<nat mpi_size]. g r' ?l param) / real_of_int mpi_size"
        using assms(4) assms(5) assms(6) r gp refl
        by (rule applied_gradient_mean [where feed = feed and s = s])
    qed
    with gp have c: "(grad =
          (if mpi_size > 1
           then GroupAllReduce (fw_grad_groups fw) (Gradient (ScaleTensor ?l ?c) param)
           else Gradient (ScaleTensor ?l ?c) param) \<or>
        grad = LogStats
          (if mpi_size > 1
           then GroupAllReduce (fw_grad_groups fw) (Gradient (ScaleTensor ?l ?c) param)
           else Gradient (ScaleTensor ?l ?c) param)
          (stats_name param)) \<and>
       (\<forall>g r. r < nat mpi_size \<longrightarrow>
          applied_gradient feed g (nat mpi_size) r grad ?gs =
            (\<Sum>r' \<leftarrow> [0..<nat mpi_size]. g r' ?l param) / real_of_int mpi_size)"
      by (rule conjI)
    show "case x of (grad, param) \<Rightarrow>
       (grad =
          (if mpi_size > 1
           then GroupAllReduce (fw_grad_groups fw) (Gradient (ScaleTensor ?l ?c) param)
           else Gradient (ScaleTensor ?l ?c) param) \<or>
        grad = LogStats
          (if mpi_size > 1
           then GroupAllReduce (fw_grad_groups fw) (Gradient (ScaleTensor ?l ?c) param)
           else Gradient (ScaleTensor ?l ?c) param)
          (stats_name param)) \<and>
       (\<forall>g r. r < nat mpi_size \<longrightarrow>
          applied_gradient feed g (nat mpi_size) r grad ?gs =
            (\<Sum>r' \<leftarrow> [0..<nat mpi_size]. g r' ?l param) / real_of_int mpi_size)"
      unfolding xp prod.case by (rule c)
  qed
  show ?thesis
    by (intro exI conjI) (rule 1 fw 3 4 5 6 7)+
qed

theorem grad_scale_inverts_witness:
  "hps_warmup_iters demo_hps \<noteq> 0 \<and> 0 \<le> hps_n_timesteps demo_hps \<and> 0 < hps_n_head demo_hps \<and>
   (1::int) \<le> 4 \<and> (65536::real) \<noteq> 0 \<and>
   scalar_value (\<lambda>t. 65536) (main_grad_scale 4) = 1 / 262144 \<and>
   (\<exists>out learning_rate update_op fact_grads adam_grads grad.
      main_model demo_hps 4 0 = Inr out \<and>
      out_train_op out = Group
        [Group [ApplyGradients Adafactor learning_rate (out_norm_scale out)
                  (main_grad_scale 4) fact_grads,
                ApplyGradients Adam learning_rate (out_norm_scale out)
                  (main_grad_scale 4) adam_grads],
         update_op] \<and>
      (grad, Var ''model/embed/x'' [256, 8]) \<in> set fact_grads \<union> set adam_grads \<and>
      applied_gradient (\<lambda>t. 65536) (\<lambda>r l p. real r + 1) 4 0 grad (main_grad_scale 4) = 5 / 2)"
proof -
  have h: "hps_warmup_iters demo_hps \<noteq> 0" "0 \<le> hps_n_timesteps demo_hps"
    "0 < hps_n_head demo_hps" "(1::int) \<le> 4"
    "(\<lambda>t :: tensor. 65536 :: real) cost_scale_placeholder = 65536" "(65536::real) \<noteq> 0"
    by (simp_all add: demo_hps_def)
  from grad_scale_inverts [OF h, of 0]
  obtain out fw learning_rate update_op fact_grads adam_grads where
    m: "main_model demo_hps 4 0 = Inr out" and
    fw: "forward demo_hps (main_X demo_hps) = Inr fw" and
    op: "out_train_op out = Group
        [Group [ApplyGradients Adafactor learning_rate (out_norm_scale out)
                  (main_grad_scale 4) fact_grads,
                ApplyGradients Adam learning_rate (out_norm_scale out)
                  (main_grad_scale 4) adam_grads],
         update_op]" and
    ps: "mset (map snd fact_grads) + mset (map snd adam_grads) =
      mset (trainable_variables (fw_variables fw))" and
    gs: "scalar_value (\<lambda>t. 65536) (main_grad_scale 4) = 1 / (65536 * real_of_int 4)" and
    b: "\<forall>(grad, param)\<in>set fact_grads \<union> set adam_grads.
       (grad =
          (if (4::int) > 1
           then GroupAllReduce (fw_grad_groups fw)
             (Gradient (ScaleTensor
                (ReduceMean (SoftmaxCrossEntropy (fw_logits fw) (main_Y demo_hps)))
                cost_scale_placeholder) param)
           else Gradient (ScaleTensor
                (ReduceMean (SoftmaxCrossEntropy (fw_logits fw) (main_Y demo_hps)))
                cost_scale_placeholder) param) \<or>
        grad = LogStats
          (if (4::int) > 1
           then GroupAllReduce (fw_grad_groups fw)
             (Gradient (ScaleTensor
                (ReduceMean (SoftmaxCrossEntropy (fw_logits fw) (main_Y demo_hps)))
                cost_scale_placeholder) param)
           else Gradient (ScaleTensor
                (ReduceMean (SoftmaxCrossEntropy (fw_logits fw) (main_Y demo_hps)))
                cost_scale_placeholder) param)
          (stats_name param)) \<and>
       (\<forall>g r. r < nat 4 \<longrightarrow>
          applied_gradient (\<lambda>t. 65536) g (nat 4) r grad (main_grad_scale 4) =
            (\<Sum>r' \<leftarrow> [0..<nat 4].
               g r' (ReduceMean (SoftmaxCrossEntropy (fw_logits fw) (main_Y demo_hps))) param) /
            real_of_int 4)"
    by blast
  have "\<exists>ws. fw_variables fw =
      [(''model/embed/x'', [256, 8]), (''model/embed/pos'', [1, 64, 8])] @ ws"
    using forward_result [OF h(2,3), of "main_X demo_hps"] fw by (auto simp: demo_hps_def)
  then have "Var ''model/embed/x'' [256, 8] \<in># mset (trainable_variables (fw_variables fw))"
    by (auto simp: trainable_variables_def)
  then have "Var ''model/embed/x'' [256, 8] \<in> snd ` (set fact_grads \<union> set adam_grads)"
    unfolding ps [symmetric] by (auto simp: image_Un)
  then obtain grad where
    mem: "(grad, Var ''model/embed/x'' [256, 8]) \<in> set fact_grads \<union> set adam_grads"
    by force
  with b have "\<forall>g r. r < nat 4 \<longrightarrow>
          applied_gradient (\<lambda>t. 65536) g (nat 4) r grad (main_grad_scale 4) =
            (\<Sum>r' \<leftarrow> [0..<nat 4].
               g r' (ReduceMean (SoftmaxCrossEntropy (fw_logits fw) (main_Y demo_hps)))
                 (Var ''model/embed/x'' [256, 8])) /
            real_of_int 4"
    by blast
  then have "applied_gradient (\<lambda>t. 65536) (\<lambda>r l p. real r + 1) (nat 4) 0 grad
      (main_grad_scale 4) = (\<Sum>r' \<leftarrow> [0..<nat 4]. real r' + 1) / real_of_int 4"
    by simp
  moreover have "[0..<4] = [0, 1, 2, 3 :: nat]"
    by code_simp
  ultimately have val: "applied_gradient (\<lambda>t. 65536) (\<lambda>r l p. real r + 1) 4 0 grad
      (main_grad_scale 4) = 5 / 2"
    by simp
  have "scalar_value (\<lambda>t. 65536) (main_grad_scale 4) = 1 / 262144"
    using gs by simp
  with m op mem val show ?thesis
    using h by blast
qed

subsection \<open>Data loading\<close>

lemma arange_bounds:
  assumes "0 < step" and "x \<in> set (arange start stop step)"
  shows "start \<le> x \<and> x < stop"
proof -
  define d where "d = stop - start + step - 1"
  obtain k where k: "k < nat (d div step)" and x: "x = start + int k * step"
    using assms(2) by (auto simp: arange_def d_def)
  have "int k + 1 \<le> d div step"
    using k by linarith
  then have "(int k + 1) * step \<le> (d div step) * step"
    using assms(1) by (simp add: mult_right_mono)
  also have "\<dots> \<le> d"
    using assms(1) by (metis div_mult_mod_eq le_add_same_cancel1 pos_mod_sign)
  finally have "int k * step < stop - start"
    by (simp add: d_def algebra_simps)
  moreover have "0 \<le> int k * step"
    using assms(1) by simp
  ultimately show ?thesis
    using x by linarith
qed

lemma set_py_slice: "set (py_slice xs a b) \<subseteq> set xs"
  unfolding py_slice_def by (meson set_drop_subset set_take_subset subset_trans)

lemma length_py_slice_prefix:
  assumes "0 \<le> n" and "n \<le> int (length xs)"
  shows "length (py_slice xs 0 n) = nat n"
  using assms by (simp add: py_slice_def py_norm_def)

lemma py_slice_in_bounds:
  assumes "0 \<le> s" and "0 \<le> w" and "s + w \<le> int (length X)"
  shows "py_slice X s (s + w) = take (nat w) (drop (nat s) X)"
proof -
  have "py_norm (length X) s = nat s" "py_norm (length X) (s + w) = nat s + nat w"
    using assms by (simp_all add: py_norm_def nat_add_distrib)
  then show ?thesis
    by (simp add: py_slice_def take_drop add.commute)
qed

lemma length_rows: "length (rows k n xs) = k"
  by (induction k arbitrary: xs) simp_all

lemma rows_width:
  "k * n \<le> length xs \<Longrightarrow> r \<in> set (rows k n xs) \<Longrightarrow> length r = n"
proof (induction k arbitrary: xs)
  case 0
  then show ?case by simp
next
  case (Suc k)
  have n: "n \<le> length xs" and rest: "k * n \<le> length (drop n xs)"
    using Suc.prems(1) by simp_all
  from Suc.prems(2) consider "r = take n xs" | "r \<in> set (rows k n (drop n xs))"
    by auto
  then show ?case
  proof cases
    case 1
    then show ?thesis using n by simp
  next
    case 2
    then show ?thesis using Suc.IH [OF rest] by simp
  qed
qed

lemma rows_subset: "r \<in> set (rows k n xs) \<Longrightarrow> set r \<subseteq> set xs"
proof (induction k arbitrary: xs)
  case 0
  then show ?case by simp
next
  case (Suc k)
  from Suc.prems consider "r = take n xs" | "r \<in> set (rows k n (drop n xs))"
    by auto
  then show ?case
  proof cases
    case 1
    then show ?thesis by (simp add: set_take_subset)
  next
    case 2
    then have "set r \<subseteq> set (drop n xs)" by (rule Suc.IH)
    then show ?thesis by (meson set_drop_subset subset_trans)
  qed
qed

text \<open>What a successful reshape returns.\<close>

lemma reshape3_Inr:
  assumes "reshape3 xs a b = Inr g"
  shows "0 < a \<and> 0 < b \<and> length g = length xs div nat (a * b) \<and>
    (\<forall>p\<in>set g. length p = nat a \<and> (\<forall>r\<in>set p. length r = nat b \<and> set r \<subseteq> set xs))"
proof -
  have a: "0 < a" and b: "0 < b" and m: "int (length xs) mod (a * b) = 0"
    using assms by (auto simp: reshape3_def split: if_splits intro: mult_pos_pos)
  define k where "k = length xs div nat (a * b)"
  define inner where "inner = rows (k * nat a) (nat b) xs"
  have g: "g = rows k (nat a) inner"
    using assms a b m by (simp add: reshape3_def k_def inner_def Let_def)
  have "nat (a * b) = nat a * nat b"
    using a b by (simp add: nat_mult_distrib)
  then have fit: "k * nat a * nat b \<le> length xs"
    by (simp add: k_def mult.assoc)
  have inner_len: "k * nat a \<le> length inner"
    by (simp add: inner_def length_rows)
  have lg: "length g = length xs div nat (a * b)"
    unfolding g k_def by (rule length_rows)
  have body: "length p = nat a \<and> (\<forall>r\<in>set p. length r = nat b \<and> set r \<subseteq> set xs)"
    if p: "p \<in> set g" for p
  proof -
    have "length p = nat a"
      using rows_width [OF inner_len] p g by blast
    moreover have "length r = nat b \<and> set r \<subseteq> set xs" if "r \<in> set p" for r
    proof -
      have "r \<in> set inner"
        using rows_subset p g that by blast
      then show ?thesis
        using rows_width [OF fit] rows_subset unfolding inner_def by blast
    qed
    ultimately show ?thesis by blast
  qed
  show ?thesis
    using a b lg body by blast
qed

lemma start_indices_Inr:
  assumes g: "start_indices X T B S off perm = Inr g"
    and off: "0 \<le> off"
    and perm: "\<forall>xs. mset (perm xs) = mset xs"
  shows "0 < T \<and> 0 < S \<and> 0 < B \<and>
    length g = length (perm (arange off (int (length X) - (T + 1)) T)) div nat (S * B) \<and>
    (\<forall>p\<in>set g. length p = nat S \<and>
       (\<forall>r\<in>set p. length r = nat B \<and>
          (\<forall>s\<in>set r. 0 \<le> s \<and> s + T + 1 \<le> int (length X))))"
proof -
  define idxs where "idxs = perm (arange off (int (length X) - (T + 1)) T)"
  define len where "len = (int (length idxs) div (S * B)) * (S * B)"
  have T: "0 < T" and nz: "S * B \<noteq> 0"
    using g by (auto simp: start_indices_def Let_def split: if_splits)
  have r: "reshape3 (py_slice idxs 0 len) S B = Inr g"
    using g T nz by (simp add: start_indices_def Let_def idxs_def len_def)
  note R = reshape3_Inr [OF r]
  have S: "0 < S" and B: "0 < B"
    using R by simp_all
  have SB: "0 < S * B"
    using S B by simp
  have len0: "0 \<le> len"
    unfolding len_def using SB by (simp add: pos_imp_zdiv_nonneg_iff)
  have "len \<le> int (length idxs)"
    unfolding len_def using SB
    by (metis div_mult_mod_eq le_add_same_cancel1 pos_mod_sign)
  then have ls: "length (py_slice idxs 0 len) = nat len"
    using len0 by (rule length_py_slice_prefix [rotated])
  have "nat len div nat (S * B) = nat (len div (S * B))"
    using len0 SB by (simp add: nat_div_distrib)
  also have "len div (S * B) = int (length idxs) div (S * B)"
    unfolding len_def using SB by simp
  also have "nat (int (length idxs) div (S * B)) = length idxs div nat (S * B)"
    using SB by (simp add: nat_div_distrib)
  finally have count: "length g = length idxs div nat (S * B)"
    using R ls by simp
  have "set idxs = set (arange off (int (length X) - (T + 1)) T)"
    unfolding idxs_def using perm by (metis mset_eq_setD)
  then have bounds: "0 \<le> s \<and> s + T + 1 \<le> int (length X)" if "s \<in> set idxs" for s
    using arange_bounds [OF T, of s off "int (length X) - (T + 1)"] that off by auto
  have inner: "length r = nat B \<and> (\<forall>s\<in>set r. 0 \<le> s \<and> s + T + 1 \<le> int (length X))"
    if "p \<in> set g" "r \<in> set p" for p r
  proof -
    have "length r = nat B" and "set r \<subseteq> set (py_slice idxs 0 len)"
      using R that by blast+
    then show ?thesis
      using bounds set_py_slice [of idxs 0 len] by blast
  qed
  have outer: "length p = nat S" if "p \<in> set g" for p
    using R that by blast
  show ?thesis
    using T S B count inner outer unfolding idxs_def by blast
qed

lemma fill_rows_ok:
  assumes "\<forall>s\<in>set ss. 0 \<le> s \<and> s + T + 1 \<le> int (length X)"
    and "0 \<le> T" and "i + length ss \<le> length x"
  shows "fill_rows X T ss i x =
    Inr (take i x @ map (\<lambda>s. py_slice X s (s + T + 1)) ss @ drop (i + length ss) x)"
  using assms
proof (induction ss arbitrary: i x)
  case Nil
  then show ?case by simp
next
  case (Cons s ss)
  define row where "row = py_slice X s (s + T + 1)"
  have s: "0 \<le> s" "s + (T + 1) \<le> int (length X)"
    using Cons.prems(1) by (simp_all add: add.assoc)
  have "row = take (nat (T + 1)) (drop (nat s) X)"
    unfolding row_def using py_slice_in_bounds [OF s(1) _ s(2)] Cons.prems(2)
    by (simp add: add.assoc)
  moreover have "nat s + nat (T + 1) \<le> length X"
    using s Cons.prems(2) by linarith
  ultimately have "length row = nat (T + 1)"
    by simp
  then have a: "assign_row row (nat (T + 1)) = Inr row"
    by (simp add: assign_row_def)
  have i: "i < length x"
    using Cons.prems(3) by simp
  have IH: "fill_rows X T ss (Suc i) (x[i := row]) =
    Inr (take (Suc i) (x[i := row]) @ map (\<lambda>s. py_slice X s (s + T + 1)) ss @
         drop (Suc i + length ss) (x[i := row]))"
    using Cons.prems by (intro Cons.IH) simp_all
  have t: "take (Suc i) (x[i := row]) = take i x @ [row]"
    using i by (simp add: take_Suc_conv_app_nth)
  have d: "drop (Suc i + length ss) (x[i := row]) = drop (i + length (s # ss)) x"
    by simp
  show ?case
    using i a IH by (simp add: row_def [symmetric] t d del: list_update.simps)
qed

lemma minibatch_ok:
  assumes "py_index p r = Inr starts"
    and "\<forall>s\<in>set starts. 0 \<le> s \<and> s + T + 1 \<le> int (length X)"
    and "0 \<le> T" and "0 \<le> B" and "length starts = nat B"
  shows "minibatch X T B r p =
    Inr (map (\<lambda>s. butlast (py_slice X s (s + T + 1))) starts,
         map (\<lambda>s. tl (py_slice X s (s + T + 1))) starts)"
proof -
  define x0 :: "8 word list list" where "x0 = replicate (nat B) (replicate (nat (T + 1)) 0)"
  have z: "zeros B (T + 1) = Inr x0"
    using assms(3,4) by (simp add: zeros_def x0_def)
  have "fill_rows X T starts 0 x0 =
    Inr (take 0 x0 @ map (\<lambda>s. py_slice X s (s + T + 1)) starts @ drop (0 + length starts) x0)"
    using assms by (intro fill_rows_ok) (simp_all add: x0_def)
  then have f: "fill_rows X T starts 0 x0 = Inr (map (\<lambda>s. py_slice X s (s + T + 1)) starts)"
    using assms(5) by (simp add: x0_def)
  show ?thesis
    by (simp add: minibatch_def assms(1) z f comp_def)
qed

lemma py_index_nth:
  assumes "0 \<le> r" and "r < int (length p)"
  shows "py_index p r = Inr (p ! nat r)"
  using assms by (simp add: py_index_def)

lemma run_batches_ok:
  assumes "\<forall>p\<in>set g. length p = nat S \<and>
       (\<forall>r\<in>set p. length r = nat B \<and>
          (\<forall>s\<in>set r. 0 \<le> s \<and> s + T + 1 \<le> int (length X)))"
    and "0 \<le> r" and "r < S" and "0 \<le> T" and "0 \<le> B"
  shows "run_batches X T B r g =
    (map (\<lambda>p. (map (\<lambda>s. butlast (py_slice X s (s + T + 1))) (p ! nat r),
                map (\<lambda>s. tl (py_slice X s (s + T + 1))) (p ! nat r))) g, None)"
  using assms(1)
proof (induction g)
  case Nil
  show ?case by simp
next
  case (Cons p g)
  have lp: "length p = nat S"
    using Cons.prems by simp
  then have idx: "py_index p r = Inr (p ! nat r)"
    using assms(2,3) by (intro py_index_nth) simp_all
  have mem: "p ! nat r \<in> set p"
    using lp assms(2,3) by (intro nth_mem) simp
  then have "length (p ! nat r) = nat B"
    and "\<forall>s\<in>set (p ! nat r). 0 \<le> s \<and> s + T + 1 \<le> int (length X)"
    using Cons.prems by simp_all
  then have m: "minibatch X T B r p =
    Inr (map (\<lambda>s. butlast (py_slice X s (s + T + 1))) (p ! nat r),
         map (\<lambda>s. tl (py_slice X s (s + T + 1))) (p ! nat r))"
    using idx assms(4,5) by (intro minibatch_ok) simp_all
  have "run_batches X T B r g =
    (map (\<lambda>p. (map (\<lambda>s. butlast (py_slice X s (s + T + 1))) (p ! nat r),
                map (\<lambda>s. tl (py_slice X s (s + T + 1))) (p ! nat r))) g, None)"
    using Cons.prems by (intro Cons.IH) simp
  then show ?case
    by (simp add: m)
qed

lemma start_indices_errors:
  assumes "0 < S"
  shows "T \<le> 0 \<Longrightarrow> start_indices X T B S off perm = Inl RandintError"
    and "0 < T \<Longrightarrow> B = 0 \<Longrightarrow> start_indices X T B S off perm = Inl ZeroDivisionError"
    and "0 < T \<Longrightarrow> B < 0 \<Longrightarrow> start_indices X T B S off perm = Inl ReshapeError"
proof -
  show "T \<le> 0 \<Longrightarrow> start_indices X T B S off perm = Inl RandintError"
    by (simp add: start_indices_def)
  show "0 < T \<Longrightarrow> B = 0 \<Longrightarrow> start_indices X T B S off perm = Inl ZeroDivisionError"
    by (simp add: start_indices_def)
  show "start_indices X T B S off perm = Inl ReshapeError" if "0 < T" "B < 0"
  proof -
    have "S * B \<noteq> 0"
      using assms that by simp
    then show ?thesis
      using that by (simp add: start_indices_def Let_def reshape3_def)
  qed
qed

lemma start_indices_total:
  assumes "0 < T" and "0 < S" and "0 < B"
  shows "\<exists>g. start_indices X T B S off perm = Inr g"
proof -
  define idxs where "idxs = perm (arange off (int (length X) - (T + 1)) T)"
  define len where "len = (int (length idxs) div (S * B)) * (S * B)"
  have SB: "0 < S * B"
    using assms by simp
  have len0: "0 \<le> len"
    unfolding len_def using SB by (simp add: pos_imp_zdiv_nonneg_iff)
  have "len \<le> int (length idxs)"
    unfolding len_def using SB
    by (metis div_mult_mod_eq le_add_same_cancel1 pos_mod_sign)
  then have "length (py_slice idxs 0 len) = nat len"
    using len0 by (rule length_py_slice_prefix [rotated])
  then have "int (length (py_slice idxs 0 len)) mod (S * B) = 0"
    using len0 by (simp add: len_def)
  then have "\<exists>g. reshape3 (py_slice idxs 0 len) S B = Inr g"
    using assms SB by (simp add: reshape3_def Let_def)
  then show ?thesis
    using assms SB by (simp add: start_indices_def Let_def idxs_def len_def)
qed

lemma iter_data_Inr:
  assumes g: "start_indices X T B S off perm = Inr g"
    and r: "0 \<le> r" "r < S"
    and off: "0 < T \<longrightarrow> 0 \<le> off \<and> off < T"
    and perm: "\<forall>xs. mset (perm xs) = mset xs"
  shows "iter_data X T B r S off perm =
    (map (\<lambda>p. (map (\<lambda>s. butlast (py_slice X s (s + T + 1))) (p ! nat r),
                map (\<lambda>s. tl (py_slice X s (s + T + 1))) (p ! nat r))) g, None)"
proof -
  have T: "0 < T"
    using g by (auto simp: start_indices_def split: if_splits)
  then have "0 \<le> off"
    using off by simp
  note I = start_indices_Inr [OF g this perm]
  have "run_batches X T B r g =
    (map (\<lambda>p. (map (\<lambda>s. butlast (py_slice X s (s + T + 1))) (p ! nat r),
                map (\<lambda>s. tl (py_slice X s (s + T + 1))) (p ! nat r))) g, None)"
    using I r by (intro run_batches_ok [where S = S]) simp_all
  then show ?thesis
    by (simp add: iter_data_def g)
qed

lemma window:
  assumes "0 \<le> s" and "s + T + 1 \<le> int (length X)" and "0 \<le> T"
  shows "length (py_slice X s (s + T + 1)) = nat (T + 1)"
    and "length (butlast (py_slice X s (s + T + 1))) = nat T"
    and "length (tl (py_slice X s (s + T + 1))) = nat T"
    and "t < nat T \<Longrightarrow> butlast (py_slice X s (s + T + 1)) ! t = X ! (nat s + t)"
    and "t < nat T \<Longrightarrow> tl (py_slice X s (s + T + 1)) ! t = X ! (nat s + t + 1)"
proof -
  have w: "py_slice X s (s + T + 1) = take (nat (T + 1)) (drop (nat s) X)"
    using py_slice_in_bounds [OF assms(1), of "T + 1" X] assms(2,3) by (simp add: add.assoc)
  have fit: "nat s + nat (T + 1) \<le> length X"
    using assms by linarith
  then show len: "length (py_slice X s (s + T + 1)) = nat (T + 1)"
    by (simp add: w)
  have T1: "nat (T + 1) = Suc (nat T)"
    using assms(3) by (simp add: nat_add_distrib)
  show "length (butlast (py_slice X s (s + T + 1))) = nat T"
    and "length (tl (py_slice X s (s + T + 1))) = nat T"
    using len T1 by simp_all
  show "butlast (py_slice X s (s + T + 1)) ! t = X ! (nat s + t)" if "t < nat T"
  proof -
    have "butlast (py_slice X s (s + T + 1)) ! t = py_slice X s (s + T + 1) ! t"
      using that len T1 by (simp add: nth_butlast)
    also have "\<dots> = X ! (nat s + t)"
      using that T1 fit by (simp add: w)
    finally show ?thesis .
  qed
  show "tl (py_slice X s (s + T + 1)) ! t = X ! (nat s + t + 1)" if "t < nat T"
  proof -
    have "tl (py_slice X s (s + T + 1)) ! t = py_slice X s (s + T + 1) ! Suc t"
      using that len T1 by (simp add: nth_tl)
    also have "\<dots> = X ! (nat s + t + 1)"
      using that T1 fit by (simp add: w)
    finally show ?thesis .
  qed
qed

lemma run_batches_cong:
  "\<forall>p\<in>set g. minibatch X T B r p = minibatch X T B r' p \<Longrightarrow>
   run_batches X T B r g = run_batches X T B r' g"
  by (induction g) (auto split: sum.splits)

lemma run_batches_bad_rank:
  "\<forall>p\<in>set g. py_index p r = Inl IndexError \<Longrightarrow> fst (run_batches X T B r g) = []"
  by (cases g) (simp_all add: minibatch_def)

lemma iter_data_any_rank:
  assumes g: "start_indices X T B S off perm = Inr g"
    and off: "0 < T \<longrightarrow> 0 \<le> off \<and> off < T"
    and perm: "\<forall>xs. mset (perm xs) = mset xs"
  shows "fst (iter_data X T B r S off perm) =
    (if - S \<le> r \<and> r < S
     then map (\<lambda>p. (map (\<lambda>s. butlast (py_slice X s (s + T + 1)))
                       (p ! nat (if r < 0 then S + r else r)),
                     map (\<lambda>s. tl (py_slice X s (s + T + 1)))
                       (p ! nat (if r < 0 then S + r else r)))) g
     else [])"
proof -
  have T: "0 < T"
    using g by (auto simp: start_indices_def split: if_splits)
  then have "0 \<le> off"
    using off by simp
  note I = start_indices_Inr [OF g this perm]
  have lp: "int (length p) = S" if "p \<in> set g" for p
    using I that by simp
  consider "0 \<le> r \<and> r < S" | "- S \<le> r \<and> r < 0" | "\<not> (- S \<le> r \<and> r < S)"
    by linarith
  then show ?thesis
  proof cases
    case 1
    then show ?thesis
      using iter_data_Inr [OF g _ _ off perm, of r] by simp
  next
    case 2
    have "minibatch X T B r p = minibatch X T B (S + r) p" if "p \<in> set g" for p
      using lp [OF that] 2 by (simp add: minibatch_def py_index_def)
    then have "run_batches X T B r g = run_batches X T B (S + r) g"
      by (intro run_batches_cong) simp
    then have "iter_data X T B r S off perm = iter_data X T B (S + r) S off perm"
      by (simp add: iter_data_def g)
    then show ?thesis
      using iter_data_Inr [OF g _ _ off perm, of "S + r"] 2 by simp
  next
    case 3
    have "py_index p r = Inl IndexError" if "p \<in> set g" for p
      using lp [OF that] 3 by (auto simp: py_index_def)
    then have "fst (run_batches X T B r g) = []"
      by (intro run_batches_bad_rank) simp
    then show ?thesis
      using 3 by (auto simp: iter_data_def g)
  qed
qed

text \<open>
  C2. Training targets are next-byte prediction: in every pair \<open>(x, y)\<close> that
  \<^verbatim>\<open>iter_data\<close> yields, for every batch row \<open>i\<close> with start index \<open>s\<^sub>i\<close> and every
  timestep \<open>t < n_timesteps\<close>, \<open>x[i][t] = X[s\<^sub>i + t]\<close> and \<open>y[i][t] = X[s\<^sub>i + t + 1]\<close>, both
  reads being inside \<open>X\<close>. The start indices of minibatch \<open>m\<close> are the row that
  \<open>mpi_rank\<close> selects in \<open>idxs[m]\<close>; the random draws are an offset in
  \<open>[0, n_timesteps)\<close> and a permutation.
\<close>

theorem next_byte_targets:
  assumes "0 < T \<longrightarrow> 0 \<le> off \<and> off < T"
    and "\<forall>xs. mset (perm xs) = mset xs"
  shows "case start_indices X T B S off perm of
      Inl e \<Rightarrow> fst (iter_data X T B r S off perm) = []
    | Inr g \<Rightarrow>
        (\<forall>m<length (fst (iter_data X T B r S off perm)).
           \<exists>starts. py_index (g ! m) r = Inr starts \<and> length starts = nat B \<and>
             (\<forall>i<nat B. \<forall>t<nat T.
                0 \<le> starts ! i \<and> nat (starts ! i) + t + 1 < length X \<and>
                fst (fst (iter_data X T B r S off perm) ! m) ! i ! t =
                  X ! (nat (starts ! i) + t) \<and>
                snd (fst (iter_data X T B r S off perm) ! m) ! i ! t =
                  X ! (nat (starts ! i) + t + 1)))"
proof (cases "start_indices X T B S off perm")
  case (Inl e)
  then show ?thesis
    by (simp add: iter_data_def)
next
  case (Inr g)
  have T: "0 < T"
    using Inr by (auto simp: start_indices_def split: if_splits)
  then have off0: "0 \<le> off"
    using assms(1) by simp
  note I = start_indices_Inr [OF Inr off0 assms(2)]
  note F = iter_data_any_rank [OF Inr assms, of r]
  define j where "j = nat (if r < 0 then S + r else r)"
  have goal: "\<exists>starts. py_index (g ! m) r = Inr starts \<and> length starts = nat B \<and>
      (\<forall>i<nat B. \<forall>t<nat T.
         0 \<le> starts ! i \<and> nat (starts ! i) + t + 1 < length X \<and>
         fst (fst (iter_data X T B r S off perm) ! m) ! i ! t = X ! (nat (starts ! i) + t) \<and>
         snd (fst (iter_data X T B r S off perm) ! m) ! i ! t = X ! (nat (starts ! i) + t + 1))"
    if m: "m < length (fst (iter_data X T B r S off perm))" for m
  proof -
    have valid: "- S \<le> r \<and> r < S"
      using m F by (auto split: if_splits)
    then have mg: "m < length g"
      using m F by simp
    then have p: "g ! m \<in> set g"
      by simp
    then have lp: "length (g ! m) = nat S"
      using I by simp
    have jS: "j < nat S"
      using valid by (auto simp: j_def)
    have idx: "py_index (g ! m) r = Inr (g ! m ! j)"
      using lp valid by (auto simp: py_index_def j_def)
    have row: "g ! m ! j \<in> set (g ! m)"
      using jS lp by simp
    then have len: "length (g ! m ! j) = nat B"
      and inb: "\<forall>s\<in>set (g ! m ! j). 0 \<le> s \<and> s + T + 1 \<le> int (length X)"
      using I p by simp_all
    have pair: "fst (iter_data X T B r S off perm) ! m =
      (map (\<lambda>s. butlast (py_slice X s (s + T + 1))) (g ! m ! j),
       map (\<lambda>s. tl (py_slice X s (s + T + 1))) (g ! m ! j))"
      using F valid mg by (simp add: j_def)
    have "0 \<le> g ! m ! j ! i \<and> nat (g ! m ! j ! i) + t + 1 < length X \<and>
         fst (fst (iter_data X T B r S off perm) ! m) ! i ! t = X ! (nat (g ! m ! j ! i) + t) \<and>
         snd (fst (iter_data X T B r S off perm) ! m) ! i ! t = X ! (nat (g ! m ! j ! i) + t + 1)"
      if i: "i < nat B" and t: "t < nat T" for i t
    proof -
      have "g ! m ! j ! i \<in> set (g ! m ! j)"
        using i len by simp
      then have s: "0 \<le> g ! m ! j ! i" "g ! m ! j ! i + T + 1 \<le> int (length X)"
        using inb by simp_all
      have T0: "0 \<le> T"
        using T by simp
      have "nat (g ! m ! j ! i) + t + 1 < length X"
        using s t by linarith
      then show ?thesis
        using s(1) i len t window(4,5) [OF s T0 t] by (simp add: pair)
    qed
    then show ?thesis
      using idx len by blast
  qed
  show ?thesis
    unfolding Inr using goal by simp
qed

lemma batch_shape:
  assumes "length starts = n"
    and "\<forall>s\<in>set starts. 0 \<le> s \<and> s + T + 1 \<le> int (length X)" and "0 \<le> T"
  shows "shape2 (map (\<lambda>s. butlast (py_slice X s (s + T + 1))) starts) = (n, replicate n (nat T))"
    and "shape2 (map (\<lambda>s. tl (py_slice X s (s + T + 1))) starts) = (n, replicate n (nat T))"
proof -
  have "map (\<lambda>s. length (butlast (py_slice X s (s + T + 1)))) starts = map (\<lambda>s. nat T) starts"
    using assms(2,3) by (intro map_cong refl) (simp only: window(2))
  then show "shape2 (map (\<lambda>s. butlast (py_slice X s (s + T + 1))) starts) =
      (n, replicate n (nat T))"
    using assms(1) by (simp add: shape2_def comp_def map_replicate_const)
  have "map (\<lambda>s. length (tl (py_slice X s (s + T + 1)))) starts = map (\<lambda>s. nat T) starts"
    using assms(2,3) by (intro map_cong refl) (simp only: window(3))
  then show "shape2 (map (\<lambda>s. tl (py_slice X s (s + T + 1))) starts) =
      (n, replicate n (nat T))"
    using assms(1) by (simp add: shape2_def comp_def map_replicate_const)
qed

lemma iter_data_raised:
  assumes "0 \<le> r" and "r < S"
    and "0 < T \<longrightarrow> 0 \<le> off \<and> off < T"
    and "\<forall>xs. mset (perm xs) = mset xs"
  shows "snd (iter_data X T B r S off perm) =
     (if T \<le> 0 then Some RandintError
      else if B = 0 then Some ZeroDivisionError
      else if B < 0 then Some ReshapeError
      else None)"
proof -
  have S: "0 < S"
    using assms(1,2) by simp
  consider "T \<le> 0" | "0 < T" "B = 0" | "0 < T" "B < 0" | "0 < T" "0 < B"
    by linarith
  then show ?thesis
  proof cases
    case 1
    then show ?thesis
      using start_indices_errors(1) [OF S] by (simp add: iter_data_def)
  next
    case 2
    then show ?thesis
      using start_indices_errors(2) [OF S] by (simp add: iter_data_def)
  next
    case 3
    then show ?thesis
      using start_indices_errors(3) [OF S] by (simp add: iter_data_def)
  next
    case 4
    then obtain g where "start_indices X T B S off perm = Inr g"
      using start_indices_total [OF _ S] by blast
    from iter_data_Inr [OF this assms] show ?thesis
      using 4 by simp
  qed
qed

text \<open>
  C9. For \<open>0 \<le> mpi_rank < mpi_size\<close> and any \<open>n_batch\<close>, every slice
  \<^verbatim>\<open>X[start_idx : start_idx + n_timesteps + 1]\<close> that \<^verbatim>\<open>iter_data\<close> takes is in bounds
  and has \<open>n_timesteps + 1\<close> elements, both components of every yielded pair have
  shape \<open>(n_batch, n_timesteps)\<close>, and neither the row selection nor the assignment
  into the buffer fails: the generator ends normally unless \<open>n_timesteps \<le> 0\<close> or
  \<open>n_batch \<le> 0\<close>, which raise before the first minibatch.
\<close>

theorem slices_in_bounds:
  assumes "0 \<le> r" and "r < S"
    and "0 < T \<longrightarrow> 0 \<le> off \<and> off < T"
    and "\<forall>xs. mset (perm xs) = mset xs"
  shows "snd (iter_data X T B r S off perm) =
       (if T \<le> 0 then Some RandintError
        else if B = 0 then Some ZeroDivisionError
        else if B < 0 then Some ReshapeError
        else None) \<and>
     (\<forall>(x, y)\<in>set (fst (iter_data X T B r S off perm)).
        shape2 x = (nat B, replicate (nat B) (nat T)) \<and>
        shape2 y = (nat B, replicate (nat B) (nat T))) \<and>
     (case start_indices X T B S off perm of
        Inl e \<Rightarrow> fst (iter_data X T B r S off perm) = []
      | Inr g \<Rightarrow>
          length (fst (iter_data X T B r S off perm)) = length g \<and>
          (\<forall>p\<in>set g. length (p ! nat r) = nat B \<and>
             (\<forall>s\<in>set (p ! nat r).
                0 \<le> s \<and> s + T + 1 \<le> int (length X) \<and>
                length (py_slice X s (s + T + 1)) = nat (T + 1))))"
proof (cases "start_indices X T B S off perm")
  case (Inl e)
  then have "fst (iter_data X T B r S off perm) = []"
    by (simp add: iter_data_def)
  then show ?thesis
    using iter_data_raised [OF assms] Inl by simp
next
  case (Inr g)
  have T: "0 < T"
    using Inr by (auto simp: start_indices_def split: if_splits)
  then have off0: "0 \<le> off" and T0: "0 \<le> T"
    using assms(3) by simp_all
  note I = start_indices_Inr [OF Inr off0 assms(4)]
  note F = iter_data_Inr [OF Inr assms]
  have row: "p ! nat r \<in> set p" if "p \<in> set g" for p
    using I that assms(1,2) by (intro nth_mem) simp
  have inb: "length (p ! nat r) = nat B \<and>
      (\<forall>s\<in>set (p ! nat r). 0 \<le> s \<and> s + T + 1 \<le> int (length X) \<and>
         length (py_slice X s (s + T + 1)) = nat (T + 1))"
    if "p \<in> set g" for p
    using I that row [OF that] window(1) [OF _ _ T0] by blast
  have shapes: "shape2 x = (nat B, replicate (nat B) (nat T)) \<and>
      shape2 y = (nat B, replicate (nat B) (nat T))"
    if xy: "(x, y) \<in> set (fst (iter_data X T B r S off perm))" for x y
  proof -
    obtain p where p: "p \<in> set g"
      and x: "x = map (\<lambda>s. butlast (py_slice X s (s + T + 1))) (p ! nat r)"
      and y: "y = map (\<lambda>s. tl (py_slice X s (s + T + 1))) (p ! nat r)"
      using xy F by auto
    have "length (p ! nat r) = nat B"
      and "\<forall>s\<in>set (p ! nat r). 0 \<le> s \<and> s + T + 1 \<le> int (length X)"
      using inb [OF p] by simp_all
    then show ?thesis
      unfolding x y using batch_shape [OF _ _ T0] by blast
  qed
  have "length (fst (iter_data X T B r S off perm)) = length g"
    using F by simp
  then show ?thesis
    using iter_data_raised [OF assms] inb shapes unfolding Inr by auto
qed

text \<open>
  C7. Two runs of \<^verbatim>\<open>iter_data\<close> on the same array, with the same random draws,
  \<open>mpi_size\<close> and \<open>n_batch\<close>, for two ranks of the communicator: they yield the same
  number of minibatches, \<open>floor(idxs.size / (mpi_size * n_batch))\<close>, the yielded
  batches have the same shapes, the runs end the same way, and minibatch \<open>m\<close> differs
  only in the row of \<open>idxs[m]\<close> it is built from.
\<close>

theorem rank_independent_batches:
  assumes "0 \<le> r1" and "r1 < S" and "0 \<le> r2" and "r2 < S"
    and "0 < T \<longrightarrow> 0 \<le> off \<and> off < T"
    and "\<forall>xs. mset (perm xs) = mset xs"
  shows "length (fst (iter_data X T B r1 S off perm)) =
       length (fst (iter_data X T B r2 S off perm)) \<and>
     length (fst (iter_data X T B r1 S off perm)) =
       (if 0 < T \<and> 0 < B
        then length (perm (arange off (int (length X) - (T + 1)) T)) div nat (S * B)
        else 0) \<and>
     map (\<lambda>(x, y). (shape2 x, shape2 y)) (fst (iter_data X T B r1 S off perm)) =
       map (\<lambda>(x, y). (shape2 x, shape2 y)) (fst (iter_data X T B r2 S off perm)) \<and>
     snd (iter_data X T B r1 S off perm) = snd (iter_data X T B r2 S off perm) \<and>
     (case start_indices X T B S off perm of
        Inl e \<Rightarrow> True
      | Inr g \<Rightarrow>
          fst (iter_data X T B r1 S off perm) =
            map (\<lambda>p. (map (\<lambda>s. butlast (py_slice X s (s + T + 1))) (p ! nat r1),
                        map (\<lambda>s. tl (py_slice X s (s + T + 1))) (p ! nat r1))) g \<and>
          fst (iter_data X T B r2 S off perm) =
            map (\<lambda>p. (map (\<lambda>s. butlast (py_slice X s (s + T + 1))) (p ! nat r2),
                        map (\<lambda>s. tl (py_slice X s (s + T + 1))) (p ! nat r2))) g)"
proof -
  have S: "0 < S"
    using assms(1,2) by simp
  note R1 = iter_data_raised [OF assms(1,2,5,6), of X B]
  note R2 = iter_data_raised [OF assms(3,4,5,6), of X B]
  show ?thesis
  proof (cases "start_indices X T B S off perm")
    case (Inl e)
    have "\<not> (0 < T \<and> 0 < B)"
      using start_indices_total [OF _ S, of T B X off perm] Inl by auto
    then show ?thesis
      using Inl R1 R2 by (auto simp: iter_data_def)
  next
    case (Inr g)
    have T: "0 < T"
      using Inr by (auto simp: start_indices_def split: if_splits)
    then have off0: "0 \<le> off" and T0: "0 \<le> T"
      using assms(5) by simp_all
    note I = start_indices_Inr [OF Inr off0 assms(6)]
    note F1 = iter_data_Inr [OF Inr assms(1,2,5,6)]
    note F2 = iter_data_Inr [OF Inr assms(3,4,5,6)]
    have sh: "shape2 (map (\<lambda>s. butlast (py_slice X s (s + T + 1))) (p ! nat r)) =
        (nat B, replicate (nat B) (nat T)) \<and>
      shape2 (map (\<lambda>s. tl (py_slice X s (s + T + 1))) (p ! nat r)) =
        (nat B, replicate (nat B) (nat T))"
      if "p \<in> set g" "0 \<le> r" "r < S" for p r
    proof -
      have "p ! nat r \<in> set p"
        using I that by (intro nth_mem) simp
      then have "length (p ! nat r) = nat B"
        and "\<forall>s\<in>set (p ! nat r). 0 \<le> s \<and> s + T + 1 \<le> int (length X)"
        using I that(1) by simp_all
      then show ?thesis
        using batch_shape [OF _ _ T0] by blast
    qed
    have "map (\<lambda>(x, y). (shape2 x, shape2 y)) (fst (iter_data X T B r1 S off perm)) =
        map (\<lambda>p. ((nat B, replicate (nat B) (nat T)), (nat B, replicate (nat B) (nat T)))) g"
      unfolding F1 using sh assms(1,2) by (simp add: comp_def)
    moreover have "map (\<lambda>(x, y). (shape2 x, shape2 y)) (fst (iter_data X T B r2 S off perm)) =
        map (\<lambda>p. ((nat B, replicate (nat B) (nat T)), (nat B, replicate (nat B) (nat T)))) g"
      unfolding F2 using sh assms(3,4) by (simp add: comp_def)
    ultimately have shapes:
      "map (\<lambda>(x, y). (shape2 x, shape2 y)) (fst (iter_data X T B r1 S off perm)) =
       map (\<lambda>(x, y). (shape2 x, shape2 y)) (fst (iter_data X T B r2 S off perm))"
      by simp
    have "length (fst (iter_data X T B r1 S off perm)) =
        length (perm (arange off (int (length X) - (T + 1)) T)) div nat (S * B)"
      using F1 I by simp
    moreover have "0 < T \<and> 0 < B"
      using I by simp
    ultimately show ?thesis
      using shapes R1 R2 F1 F2 unfolding Inr by simp
  qed
qed

lemma demo_start_indices: "start_indices demo_X 2 1 2 1 rev = Inr [[[7], [5]], [[3], [1]]]"
  by code_simp

lemma demo_contract: "(0::int) < 2 \<longrightarrow> (0::int) \<le> 1 \<and> (1::int) < 2" "\<forall>xs :: int list. mset (rev xs) = mset xs"
  by simp_all

theorem next_byte_targets_witness:
  "fst (fst (iter_data demo_X 2 1 0 2 1 rev) ! 0) ! 0 ! 1 = demo_X ! 8 \<and>
   snd (fst (iter_data demo_X 2 1 0 2 1 rev) ! 0) ! 0 ! 1 = demo_X ! 9"
proof -
  have len: "0 < length (fst (iter_data demo_X 2 1 0 2 1 rev))"
    using iter_data_Inr [OF demo_start_indices _ _ demo_contract, of 0] by simp
  from next_byte_targets [OF demo_contract, where X = demo_X and B = 1 and S = 2 and r = 0]
  have "\<forall>m<length (fst (iter_data demo_X 2 1 0 2 1 rev)).
      \<exists>starts. py_index ([[[7], [5]], [[3], [1]]] ! m) 0 = Inr starts \<and> length starts = nat 1 \<and>
        (\<forall>i<nat 1. \<forall>t<nat 2.
           0 \<le> starts ! i \<and> nat (starts ! i) + t + 1 < length demo_X \<and>
           fst (fst (iter_data demo_X 2 1 0 2 1 rev) ! m) ! i ! t =
             demo_X ! (nat (starts ! i) + t) \<and>
           snd (fst (iter_data demo_X 2 1 0 2 1 rev) ! m) ! i ! t =
             demo_X ! (nat (starts ! i) + t + 1))"
    by (simp add: demo_start_indices)
  with len obtain starts where s: "py_index ([[[7], [5]], [[3], [1]]] ! 0) 0 = Inr starts"
    and all: "\<forall>i<nat 1. \<forall>t<nat 2.
           0 \<le> starts ! i \<and> nat (starts ! i) + t + 1 < length demo_X \<and>
           fst (fst (iter_data demo_X 2 1 0 2 1 rev) ! 0) ! i ! t =
             demo_X ! (nat (starts ! i) + t) \<and>
           snd (fst (iter_data demo_X 2 1 0 2 1 rev) ! 0) ! i ! t =
             demo_X ! (nat (starts ! i) + t + 1)"
    by blast
  have "starts = [7]"
    using s by (simp add: py_index_def)
  then show ?thesis
    using all [rule_format, of 0 1] by simp
qed

theorem slices_in_bounds_witness:
  "snd (iter_data demo_X 2 1 0 2 1 rev) = None \<and>
   length (fst (iter_data demo_X 2 1 0 2 1 rev)) = 2 \<and>
   length (py_slice demo_X 7 (7 + 2 + 1)) = 3"
proof -
  have r: "(0::int) \<le> 0" "(0::int) < 2"
    by simp_all
  from slices_in_bounds [OF r demo_contract, of demo_X 1]
  show ?thesis
    by (simp add: demo_start_indices)
qed

theorem rank_independent_batches_witness:
  "length (fst (iter_data demo_X 2 1 0 2 1 rev)) = length (fst (iter_data demo_X 2 1 1 2 1 rev)) \<and>
   length (fst (iter_data demo_X 2 1 0 2 1 rev)) = 2 \<and>
   map (\<lambda>(x, y). (shape2 x, shape2 y)) (fst (iter_data demo_X 2 1 0 2 1 rev)) =
     map (\<lambda>(x, y). (shape2 x, shape2 y)) (fst (iter_data demo_X 2 1 1 2 1 rev)) \<and>
   snd (iter_data demo_X 2 1 0 2 1 rev) = snd (iter_data demo_X 2 1 1 2 1 rev)"
proof -
  have r: "(0::int) \<le> 0" "(0::int) < 2" "(0::int) \<le> 1" "(1::int) < 2"
    by simp_all
  have "length (rev (arange 1 (int (length demo_X) - (2 + 1)) 2)) div nat (2 * 1) = 2"
    by (simp add: arange_def demo_X_def)
  with rank_independent_batches [OF r demo_contract, of demo_X 1]
  show ?thesis
    by simp
qed

subsection \<open>Reading the corpus\<close>

lemma universal_newlines_id:
  "13 \<notin> set chars \<Longrightarrow> universal_newlines chars = chars"
  by (induction chars rule: universal_newlines.induct) auto

lemma utf8_ascii: "\<forall>c\<in>set s. c < 128 \<Longrightarrow> concat (map utf8_encode s) = map of_nat s"
  by (induction s) (simp_all add: utf8_encode_def)

lemma enwik8_ascii:
  assumes ascii: "\<forall>c\<in>set chars. c < 128" and cr: "13 \<notin> set chars"
    and n: "0 \<le> n_train" "0 \<le> n_valid" "0 \<le> n_test"
    and len: "n_train + n_valid + n_test \<le> int (length (file_bytes chars))"
  shows "enwik8 chars n_train n_valid n_test =
    (take (nat n_train) (file_bytes chars),
     take (nat n_valid) (drop (nat n_train) (file_bytes chars)),
     take (nat n_test) (drop (nat n_train + nat n_valid) (file_bytes chars)))"
proof -
  define N where "N = n_train + n_valid + n_test"
  have fb: "file_bytes chars = map of_nat chars"
    using ascii by (simp add: file_bytes_def utf8_ascii)
  have "\<forall>c\<in>set (take (nat N) chars). c < 128"
    using ascii by (meson in_set_takeD)
  then have X: "fromstring (read_text chars N) = take (nat N) (file_bytes chars)"
    using n cr by (simp add: fromstring_def read_text_def universal_newlines_id utf8_ascii fb
        take_map N_def)
  have lenX: "length (take (nat N) (file_bytes chars)) = nat N"
    using len n by (simp add: N_def)
  have a: "py_slice (take (nat N) (file_bytes chars)) 0 n_train = take (nat n_train) (file_bytes chars)"
    using n by (simp add: py_slice_def py_norm_def lenX N_def min_def)
  have b: "py_slice (take (nat N) (file_bytes chars)) n_train (n_train + n_valid) =
      take (nat n_valid) (drop (nat n_train) (file_bytes chars))"
    using n len py_slice_in_bounds [of n_train n_valid "take (nat N) (file_bytes chars)"]
    by (simp add: lenX N_def drop_take take_take min_def nat_add_distrib)
  have c: "py_slice (take (nat N) (file_bytes chars)) (n_train + n_valid) (int (nat N)) =
      take (nat n_test) (drop (nat n_train + nat n_valid) (file_bytes chars))"
    using n len py_slice_in_bounds [of "n_train + n_valid" n_test "take (nat N) (file_bytes chars)"]
    by (simp add: lenX N_def drop_take nat_add_distrib add.assoc)
  show ?thesis
    unfolding enwik8_def Let_def N_def [symmetric] X split3_def lenX a b c ..
qed

text \<open>
  C6. For a file of at least \<open>n_train + n_valid + n_test\<close> bytes, \<^verbatim>\<open>enwik8\<close> is to
  return the three consecutive segments of the first \<open>n_train + n_valid + n_test\<close>
  bytes of the file. \<open>enwik8_ascii\<close> shows that it does for a file of ASCII characters
  without carriage returns. The evaluation below is of two files where the text-mode
  read makes it differ: one with a carriage return, which comes back as a line feed,
  and one with a two-byte character, where three characters are four bytes and the
  test array gets two of them.
\<close>

theorem enwik8_text_mode:
  "file_bytes [97, 13, 98] = [97, 13, 98] \<and>
   enwik8 [97, 13, 98] 1 1 1 = ([97], [10], [98]) \<and>
   file_bytes [233, 97, 98] = [195, 169, 97, 98] \<and>
   enwik8 [233, 97, 98] 1 1 1 = ([195], [169], [97, 98])"
  by (simp add: file_bytes_def utf8_encode_def enwik8_def fromstring_def read_text_def
      split3_def py_slice_def py_norm_def)

end
